theory Spec2Isabelle
  imports Complex_Main "HOL-Library.Log_Nat"
begin

section \<open>Numbers of the program\<close>

text \<open>
  The source is \<^verbatim>\<open>paddleslim/quant/observers/abs_max_weight.py\<close>. Its numbers are
  floating-point numbers: the loop counter \<^verbatim>\<open>factor\<close> is a Python float (IEEE binary64),
  the tensors hold binary32 entries. A floating-point value is modelled as the rational
  it denotes, and an operation as the exact operation followed by rounding to the
  nearest value of the format, ties to even. Only the normal range is modelled.

  \<^item> The arithmetic of the loop counter, the constants of the source and the candidate
    scales \<^verbatim>\<open>factor * abs_max_values\<close> are modelled in this way, bit for bit.
  \<^item> The quantization error of lines 77 to 82 is a chain of binary32 operations of the
    tensor library that ends in a mean; neither the order of its additions nor its
    intermediate precision can be read off the repository. The search therefore takes
    the function that computes this error as an argument, and the theorems about the
    search hold for every such function. \<open>mse_loss\<close> below is the function in exact
    arithmetic; it is used where a theorem is about one concrete tensor.
\<close>

definition round_ties_even :: "rat \<Rightarrow> int" where
  "round_ties_even x =
     (let n = \<lfloor>x\<rfloor>; r = x - of_int n
      in if r < 1 / 2 then n else if 1 / 2 < r then n + 1 else if even n then n else n + 1)"

text \<open>The exponent \<open>e\<close> with \<open>2 ^ e \<le> \<bar>x\<bar> < 2 ^ (e + 1)\<close>, for \<open>x \<noteq> 0\<close>.\<close>

definition binade :: "rat \<Rightarrow> int" where
  "binade x =
     (case quotient_of \<bar>x\<bar> of
        (p, q) \<Rightarrow> let e = bitlen p - bitlen q in if power_int 2 e \<le> \<bar>x\<bar> then e else e - 1)"

text \<open>Rounding to a binary format with \<open>p\<close> significand bits (normal range).\<close>

definition round_float :: "nat \<Rightarrow> rat \<Rightarrow> rat" where
  "round_float p x =
     (if x = 0 then 0
      else let u = power_int 2 (binade x - int p + 1)
           in of_int (round_ties_even (x / u)) * u)"

definition float64 :: "rat \<Rightarrow> rat" where
  "float64 = round_float 53"

definition float32 :: "rat \<Rightarrow> rat" where
  "float32 = round_float 24"

text \<open>
  \<^verbatim>\<open>factor * abs_max_values\<close>, for one entry \<open>m\<close>: the library converts the Python
  float to binary32 and multiplies in binary32.
\<close>

definition scale_by :: "rat \<Rightarrow> rat \<Rightarrow> rat" where
  "scale_by f m = float32 (float32 f * m)"

text \<open>
  \<^verbatim>\<open>==\<close> on binary32 tensors: the library's comparison of two finite floats holds when
  they differ by less than the binary64 number \<^verbatim>\<open>1e-8\<close>.
\<close>

definition float_equal :: "rat \<Rightarrow> rat \<Rightarrow> bool" where
  "float_equal a b = (\<bar>a - b\<bar> < float64 (1 / 100000000))"

text \<open>\<^verbatim>\<open>paddle.round\<close>: to the nearest integer, halves away from zero.\<close>

definition paddle_round :: "rat \<Rightarrow> int" where
  "paddle_round x = (if 0 \<le> x then \<lfloor>x + 1 / 2\<rfloor> else - \<lfloor>- x + 1 / 2\<rfloor>)"

text \<open>\<^verbatim>\<open>paddle.clip(x, min, max)\<close>.\<close>

definition clip :: "int \<Rightarrow> int \<Rightarrow> int \<Rightarrow> int" where
  "clip x lo hi = min (max x lo) hi"

text \<open>
  A loss value: a finite number, the \<^verbatim>\<open>float('inf')\<close> the search starts from, or the
  NaN that a division of zero by zero and the mean of no element produce.
\<close>

datatype loss = Fin rat | PInf | NaN

text \<open>\<^verbatim>\<open>mse_loss < minimum_loss\<close>: every comparison with NaN is false.\<close>

fun loss_less :: "loss \<Rightarrow> loss \<Rightarrow> bool" where
  "loss_less (Fin a) (Fin b) = (a < b)"
| "loss_less (Fin a) PInf = True"
| "loss_less _ _ = False"

text \<open>\<^verbatim>\<open>paddle.minimum\<close>: NaN propagates.\<close>

fun loss_minimum :: "loss \<Rightarrow> loss \<Rightarrow> loss" where
  "loss_minimum NaN _ = NaN"
| "loss_minimum _ NaN = NaN"
| "loss_minimum (Fin a) (Fin b) = Fin (min a b)"
| "loss_minimum (Fin a) PInf = Fin a"
| "loss_minimum PInf (Fin b) = Fin b"
| "loss_minimum PInf PInf = PInf"

section \<open>Tensors\<close>

text \<open>
  A tensor is its shape and its entries in row-major order. A tensor of shape \<open>[]\<close>
  holds one entry.
\<close>

record tensor =
  shape :: "nat list"
  data :: "rat list"

definition numel :: "tensor \<Rightarrow> nat" where
  "numel t = prod_list (shape t)"

definition wf_tensor :: "tensor \<Rightarrow> bool" where
  "wf_tensor t = (length (data t) = numel t)"

text \<open>The index along dimension \<open>i\<close> of the entry at row-major position \<open>k\<close>.\<close>

definition coord :: "nat list \<Rightarrow> nat \<Rightarrow> nat \<Rightarrow> nat" where
  "coord sh i k = (k div prod_list (drop (Suc i) sh)) mod (sh ! i)"

text \<open>
  The reductions of the tensor library (\<^verbatim>\<open>paddle.max\<close> and \<^verbatim>\<open>mean\<close> with an
  \<^verbatim>\<open>axis\<close> argument), which are not in the repository. Reducing over a list of axes
  keeps the other dimensions, in order; the entries that agree on the kept dimensions
  form one group, and the reduced tensor has one entry per group.
\<close>

definition kept_axes :: "nat list \<Rightarrow> nat list \<Rightarrow> nat list" where
  "kept_axes sh axes = filter (\<lambda>i. i \<notin> set axes) [0..<length sh]"

definition reduced_shape :: "nat list \<Rightarrow> nat list \<Rightarrow> nat list" where
  "reduced_shape sh axes = map (\<lambda>i. sh ! i) (kept_axes sh axes)"

definition reduced_index :: "nat list \<Rightarrow> nat list \<Rightarrow> nat \<Rightarrow> nat" where
  "reduced_index sh axes k = foldl (\<lambda>acc i. acc * (sh ! i) + coord sh i k) 0 (kept_axes sh axes)"

definition groups :: "tensor \<Rightarrow> nat list \<Rightarrow> rat list list" where
  "groups t axes =
     map (\<lambda>j. map (\<lambda>k. data t ! k)
                 (filter (\<lambda>k. reduced_index (shape t) axes k = j) [0..<numel t]))
         [0..<prod_list (reduced_shape (shape t) axes)]"

text \<open>
  Given no axis at all, or every axis of the tensor, the library reduces over all
  dimensions.
\<close>

definition lib_axes :: "nat \<Rightarrow> nat list \<Rightarrow> nat list" where
  "lib_axes r axes = (if axes = [] \<or> length axes = r then [0..<r] else axes)"

text \<open>
  Broadcasting of a one-dimensional tensor to \<open>n\<close> entries: a tensor with one entry is
  repeated, any other is taken as it is.
\<close>

definition broadcast_to :: "nat \<Rightarrow> 'a list \<Rightarrow> 'a list" where
  "broadcast_to n xs = (if length xs = 1 then replicate n (hd xs) else xs)"

text \<open>
  The maximum of the absolute values of a group (\<^verbatim>\<open>paddle.max(paddle.abs(...))\<close>). The
  groups of a non-empty tensor are not empty (\<open>channels_nonempty\<close> below), so the first
  equation is never used on them.
\<close>

fun abs_max_of :: "rat list \<Rightarrow> rat" where
  "abs_max_of [] = 0"
| "abs_max_of (x # xs) = fold (\<lambda>y m. max \<bar>y\<bar> m) xs \<bar>x\<bar>"

text \<open>\<^verbatim>\<open>paddle.where(cond, x, y)\<close> on tensors of one shape.\<close>

definition paddle_where :: "bool list \<Rightarrow> 'a list \<Rightarrow> 'a list \<Rightarrow> 'a list" where
  "paddle_where cond xs ys = map (\<lambda>(c, x, y). if c then x else y) (zip cond (zip xs ys))"

text \<open>\<^verbatim>\<open>paddle.zeros_like\<close>.\<close>

definition zeros_like_tensor :: "tensor \<Rightarrow> tensor" where
  "zeros_like_tensor t = \<lparr>shape = shape t, data = replicate (length (data t)) 0\<rparr>"

section \<open>The observer\<close>

text \<open>
  The source raises nothing itself. \<open>NotCalibratedError\<close> and \<open>InvalidAxisError\<close> are
  the error kinds the specification names; \<open>LibraryError\<close> is an exception raised inside
  the tensor library.
\<close>

datatype error = NotCalibratedError | InvalidAxisError | LibraryError

text \<open>
  The fields of \<^verbatim>\<open>AbsMaxChannelWiseWeightObserverLayer\<close>. \<^verbatim>\<open>_max\<close>, \<^verbatim>\<open>_scale\<close> and
  \<^verbatim>\<open>_zero_point\<close> are \<^verbatim>\<open>None\<close> until they are set. \<open>channel_axis\<close> is what
  \<^verbatim>\<open>quant_axis()\<close> of the base class returns.
\<close>

record observer =
  channel_axis :: int
  quant_bits :: nat
  calibration_loss :: loss
  qmin :: int
  qmax :: int
  obs_max :: "tensor option"
  obs_scale :: "tensor option"
  obs_zero_point :: "tensor option"

text \<open>
  Modelled from the spec: \<^verbatim>\<open>qmin_qmax\<close> of the base class \<^verbatim>\<open>ChannelWiseObserver\<close>,
  which is not in the repository. For signed symmetric quantization with \<open>b\<close> bits
  (\<open>b\<close> at least 1) the spec gives \<open>qmax = 2 ^ (b - 1) - 1\<close> and \<open>qmin = - qmax\<close>. The
  channel axis is fixed at construction (the base class derives it from the layer), so
  \<^verbatim>\<open>__init__\<close> takes it as an argument here. The theorems about the search do not use
  this definition: they hold for every range \<open>qmin\<close>, \<open>qmax\<close> that meets their
  hypotheses.
\<close>

definition qmin_qmax :: "nat \<Rightarrow> int \<times> int" where
  "qmin_qmax b = (- (2 ^ (b - 1) - 1), 2 ^ (b - 1) - 1)"

definition init :: "int \<Rightarrow> nat \<Rightarrow> observer" where
  "init axis bits =
     \<lparr>channel_axis = axis, quant_bits = bits, calibration_loss = PInf,
      qmin = fst (qmin_qmax bits), qmax = snd (qmin_qmax bits),
      obs_max = None, obs_scale = None, obs_zero_point = None\<rparr>"

definition quant_axis :: "observer \<Rightarrow> int" where
  "quant_axis obs = channel_axis obs"

section \<open>The scale search\<close>

text \<open>
  \<^verbatim>\<open>reduce_axis = tuple([i for i in range(len(inputs.shape)) if i != self.quant_axis()])\<close>
\<close>

definition reduce_axis :: "observer \<Rightarrow> tensor \<Rightarrow> nat list" where
  "reduce_axis obs inputs = filter (\<lambda>i. int i \<noteq> quant_axis obs) [0..<length (shape inputs)]"

text \<open>
  One entry \<open>x\<close> of a group, quantized and dequantized at the scale \<open>s\<close> it meets after
  broadcasting:
  \<^verbatim>\<open>quant_var = clip(round(inputs / expand_scales * qmax), qmin, qmax)\<close>,
  \<^verbatim>\<open>quant_dequant_var = quant_var / qmax * expand_scales\<close>.
  With \<open>qmax = 0\<close> the second line divides zero by zero; \<open>mse_loss\<close> covers that case.
\<close>

definition quant_var :: "int \<Rightarrow> int \<Rightarrow> rat \<Rightarrow> rat \<Rightarrow> int" where
  "quant_var lo hi s x = clip (paddle_round (x / s * of_int hi)) lo hi"

definition quant_dequant_var :: "int \<Rightarrow> int \<Rightarrow> rat \<Rightarrow> rat \<Rightarrow> rat" where
  "quant_dequant_var lo hi s x = of_int (quant_var lo hi s x) / of_int hi * s"

text \<open>
  \<^verbatim>\<open>((inputs - quant_dequant_var)**2).mean(axis=reduce_axis)\<close>, for one group, in exact
  arithmetic. The library computes it in binary32: its value can differ from this one in
  the last bits, and it is \<open>+inf\<close> when a squared error exceeds the binary32 range.
\<close>

definition mse_loss :: "int \<Rightarrow> int \<Rightarrow> rat \<Rightarrow> rat list \<Rightarrow> loss" where
  "mse_loss lo hi s g =
     (if hi = 0 \<or> g = [] then NaN
      else Fin (sum_list (map (\<lambda>x. (x - quant_dequant_var lo hi s x)\<^sup>2) g) / of_nat (length g)))"

text \<open>
  The type of a function that computes the error of lines 77 to 82 for one group: from
  \<open>qmin\<close>, \<open>qmax\<close>, the scale and the entries of the group.
\<close>

type_synonym loss_fn = "int \<Rightarrow> int \<Rightarrow> rat \<Rightarrow> rat list \<Rightarrow> loss"

text \<open>The variables the loop updates.\<close>

record search_state =
  factor :: rat
  minimum_loss :: "loss list"
  result :: "rat list"

text \<open>
  The body of the \<^verbatim>\<open>while\<close> loop (lines 74 to 84). \<open>chans\<close> are the groups of entries
  the mean of line 82 runs over. \<^verbatim>\<open>scales\<close>, \<^verbatim>\<open>minimum_loss\<close> and \<^verbatim>\<open>result\<close> have
  either one entry per group or a single entry, which the library broadcasts to the
  groups in lines 78, 83 and 84.
\<close>

definition loop_body ::
  "loss_fn \<Rightarrow> observer \<Rightarrow> rat list list \<Rightarrow> rat list \<Rightarrow> search_state \<Rightarrow> search_state" where
  "loop_body lossf obs chans abs_max_values st =
     (let scales = map (scale_by (factor st)) abs_max_values;
          factor' = float64 (factor st + float64 (2 / 100));
          n = length chans;
          mse = map2 (lossf (qmin obs) (qmax obs)) (broadcast_to n scales) chans
      in \<lparr>factor = factor',
          minimum_loss = map2 loss_minimum mse (broadcast_to n (minimum_loss st)),
          result = paddle_where (map2 loss_less mse (broadcast_to n (minimum_loss st)))
                     (broadcast_to n scales) (broadcast_to n (result st))\<rparr>)"

text \<open>
  \<^verbatim>\<open>while factor <= 1.0\<close>. Nothing in the loop's text bounds the number of rounds, so
  the model is a partial function: \<open>None\<close> stands for a loop that never ends.
\<close>

partial_function (option) search_loop ::
  "loss_fn \<Rightarrow> observer \<Rightarrow> rat list list \<Rightarrow> rat list \<Rightarrow> search_state \<Rightarrow> search_state option" where
  "search_loop lossf obs chans abs_max_values st =
     (if factor st \<le> 1
      then search_loop lossf obs chans abs_max_values (loop_body lossf obs chans abs_max_values st)
      else Some st)"

declare search_loop.simps [code]

text \<open>\<^verbatim>\<open>np.float32(1e-8)\<close>: the binary64 literal, converted to binary32.\<close>

definition eps :: rat where
  "eps = float32 (float64 (1 / 100000000))"

text \<open>
  The tensor \<^verbatim>\<open>inputs / expand_scales\<close> and the tensors computed from it in lines 77 to
  82. \<^verbatim>\<open>abs_max_values\<close> is one-dimensional, and \<^verbatim>\<open>unsqueeze\<close> adds one dimension per
  reduced axis. When the channel axis names a dimension, \<^verbatim>\<open>expand_scales\<close> has the rank
  of \<^verbatim>\<open>inputs\<close> and the quotient has the shape of \<^verbatim>\<open>inputs\<close>. When it names none, every
  dimension is a reduced axis, \<^verbatim>\<open>expand_scales\<close> has one dimension more than
  \<^verbatim>\<open>inputs\<close>, and broadcasting gives the quotient a leading dimension of size 1.
\<close>

definition expanded_inputs :: "observer \<Rightarrow> tensor \<Rightarrow> tensor" where
  "expanded_inputs obs inputs =
     (if length (reduce_axis obs inputs) = length (shape inputs)
      then inputs\<lparr>shape := 1 # shape inputs\<rparr> else inputs)"

text \<open>
  \<^verbatim>\<open>_cal_abs_max\<close>. The source has no \<^verbatim>\<open>raise\<close>. The specification defines the search
  on non-empty tensors only. What the tensor library does with a tensor without entries
  is outside the repository; the model reports an error of the library there, and the
  theorems about the result of the search are about non-empty tensors.

  \<^verbatim>\<open>paddle.where\<close> with the scalar \<^verbatim>\<open>np.float32(1e-8)\<close> returns a one-dimensional tensor,
  also where \<^verbatim>\<open>paddle.max\<close> has reduced every dimension; \<^verbatim>\<open>result\<close>, made by
  \<^verbatim>\<open>paddle.where\<close> in line 83, is one-dimensional as well.
\<close>

definition cal_abs_max :: "loss_fn \<Rightarrow> observer \<Rightarrow> tensor \<Rightarrow> (error + tensor) option" where
  "cal_abs_max lossf obs inputs =
     (if numel inputs = 0 then Some (Inl LibraryError)
      else
        let axes = reduce_axis obs inputs;
            abs_max_values =
              map (\<lambda>m. if float_equal m 0 then eps else m)
                (map abs_max_of (groups inputs (lib_axes (length (shape inputs)) axes)));
            expanded = expanded_inputs obs inputs;
            chans = groups expanded (lib_axes (length (shape expanded)) axes);
            st0 = \<lparr>factor = float64 (3 / 10),
                   minimum_loss = replicate (length abs_max_values) PInf,
                   result = abs_max_values\<rparr>
        in case search_loop lossf obs chans abs_max_values st0 of
             None \<Rightarrow> None
           | Some st \<Rightarrow> Some (Inr \<lparr>shape = [length (result st)], data = result st\<rparr>))"

section \<open>The methods of the observer\<close>

text \<open>
  A method returns its value, or the error it raises, together with the observer as the
  call leaves it. \<^verbatim>\<open>forward\<close> runs the search loop and is \<open>None\<close> if that never
  returns; like the search, it takes the function that computes the quantization error.
\<close>

definition forward ::
  "loss_fn \<Rightarrow> observer \<Rightarrow> tensor \<Rightarrow> ((error + tensor) \<times> observer) option" where
  "forward lossf obs inputs =
     (if obs_max obs = None then
        (case cal_abs_max lossf obs inputs of
           None \<Rightarrow> None
         | Some (Inl e) \<Rightarrow> Some (Inl e, obs)
         | Some (Inr m) \<Rightarrow> Some (Inr inputs, obs\<lparr>obs_max := Some m\<rparr>))
      else Some (Inr inputs, obs))"

definition min_value :: "observer \<Rightarrow> rat" where
  "min_value obs = 0"

text \<open>\<^verbatim>\<open>return self._max\<close>: the field as it is, \<^verbatim>\<open>None\<close> included.\<close>

definition max_value :: "observer \<Rightarrow> error + tensor option" where
  "max_value obs = Inr (obs_max obs)"

text \<open>
  \<^verbatim>\<open>paddle.zeros_like(self._scale)\<close>. Given \<^verbatim>\<open>None\<close> in place of a tensor, the library
  call raises.
\<close>

definition zeros_like :: "tensor option \<Rightarrow> error + tensor" where
  "zeros_like x = (case x of None \<Rightarrow> Inl LibraryError | Some t \<Rightarrow> Inr (zeros_like_tensor t))"

definition cal_thresholds :: "observer \<Rightarrow> (error + unit) \<times> observer" where
  "cal_thresholds obs =
     (let obs1 = obs\<lparr>obs_scale := obs_max obs\<rparr>
      in case zeros_like (obs_scale obs1) of
           Inl e \<Rightarrow> (Inl e, obs1)
         | Inr z \<Rightarrow> (Inr (), obs1\<lparr>obs_zero_point := Some z\<rparr>))"

definition scales :: "observer \<Rightarrow> (error + tensor option) \<times> observer" where
  "scales obs =
     (if obs_scale obs = None then
        (case cal_thresholds obs of
           (Inl e, obs1) \<Rightarrow> (Inl e, obs1)
         | (Inr u, obs1) \<Rightarrow> (Inr (obs_scale obs1), obs1))
      else (Inr (obs_scale obs), obs))"

definition zero_points :: "observer \<Rightarrow> (error + tensor option) \<times> observer" where
  "zero_points obs =
     (if obs_zero_point obs = None then
        (case cal_thresholds obs of
           (Inl e, obs1) \<Rightarrow> (Inl e, obs1)
         | (Inr u, obs1) \<Rightarrow> (Inr (obs_zero_point obs1), obs1))
      else (Inr (obs_zero_point obs), obs))"

text \<open>A sequence of \<^verbatim>\<open>forward\<close> calls, each on the observer the last one left.\<close>

fun forward_all :: "loss_fn \<Rightarrow> observer \<Rightarrow> tensor list \<Rightarrow> observer option" where
  "forward_all lossf obs [] = Some obs"
| "forward_all lossf obs (t # ts) =
     (case forward lossf obs t of None \<Rightarrow> None | Some (r, obs1) \<Rightarrow> forward_all lossf obs1 ts)"

section \<open>Auxiliary notions for the proofs\<close>

text \<open>The update of \<^verbatim>\<open>factor\<close> in one round of the loop.\<close>

definition next_factor :: "rat \<Rightarrow> rat" where
  "next_factor f = float64 (f + float64 (2 / 100))"

text \<open>The first \<open>n\<close> values \<^verbatim>\<open>factor\<close> takes, from a given start.\<close>

fun factor_seq :: "nat \<Rightarrow> rat \<Rightarrow> rat list" where
  "factor_seq 0 f = []"
| "factor_seq (Suc n) f = f # factor_seq n (next_factor f)"

text \<open>
  What the rounds of the loop do to one group: \<open>g\<close> the entries of the group, \<open>m\<close> the
  entry of \<^verbatim>\<open>abs_max_values\<close> that is broadcast to it, and the pair the group's entries
  of \<^verbatim>\<open>minimum_loss\<close> and \<^verbatim>\<open>result\<close>.
\<close>

definition chan_step ::
  "loss_fn \<Rightarrow> int \<Rightarrow> int \<Rightarrow> rat list \<Rightarrow> rat \<Rightarrow> rat \<Rightarrow> loss \<times> rat \<Rightarrow> loss \<times> rat" where
  "chan_step lossf lo hi g m f lr =
     (loss_minimum (lossf lo hi (scale_by f m) g) (fst lr),
      if loss_less (lossf lo hi (scale_by f m) g) (fst lr) then scale_by f m else snd lr)"

fun chan_search ::
  "loss_fn \<Rightarrow> int \<Rightarrow> int \<Rightarrow> rat list \<Rightarrow> rat \<Rightarrow> rat list \<Rightarrow> loss \<times> rat \<Rightarrow> loss \<times> rat" where
  "chan_search lossf lo hi g m [] lr = lr"
| "chan_search lossf lo hi g m (f # fs) lr =
     chan_search lossf lo hi g m fs (chan_step lossf lo hi g m f lr)"

text \<open>
  The binary64 values of \<^verbatim>\<open>factor\<close> at which the loop test succeeds, as multiples of
  \<open>2 ^ - 54\<close>.
\<close>

definition factor_numerators :: "int list" where
  "factor_numerators =
     [5404319552844595, 5764607523034235, 6124895493223875, 6485183463413515,
      6845471433603155, 7205759403792795, 7566047373982435, 7926335344172075,
      8286623314361715, 8646911284551355, 9007199254740994, 9367487224930634,
      9727775195120274, 10088063165309914, 10448351135499554, 10808639105689194,
      11168927075878834, 11529215046068474, 11889503016258114, 12249790986447754,
      12610078956637394, 12970366926827034, 13330654897016674, 13690942867206314,
      14051230837395954, 14411518807585594, 14771806777775234, 15132094747964874,
      15492382718154514, 15852670688344154, 16212958658533794, 16573246628723434,
      16933534598913074, 17293822569102714, 17654110539292354]"

definition grid :: "rat list" where
  "grid = map (\<lambda>n. of_int n / 2 ^ 54) factor_numerators"

text \<open>Each element of a list is the \<open>next_factor\<close> of the one before it.\<close>

fun steps_ok :: "rat list \<Rightarrow> bool" where
  "steps_ok (a # b # xs) = (next_factor a = b \<and> steps_ok (b # xs))"
| "steps_ok xs = True"

text \<open>
  Names for the intermediate values of \<^verbatim>\<open>_cal_abs_max\<close>: the groups of entries the
  mean of line 82 runs over (the channels, when the channel axis is valid and the tensor
  has two dimensions or more), \<^verbatim>\<open>abs_max_values\<close> after the replacement of zeros, the
  same broadcast to the groups, and the variables as the loop finds them.
\<close>

definition channels :: "observer \<Rightarrow> tensor \<Rightarrow> rat list list" where
  "channels obs t =
     groups (expanded_inputs obs t)
       (lib_axes (length (shape (expanded_inputs obs t))) (reduce_axis obs t))"

definition abs_max_values :: "observer \<Rightarrow> tensor \<Rightarrow> rat list" where
  "abs_max_values obs t =
     map (\<lambda>m. if float_equal m 0 then eps else m)
       (map abs_max_of (groups t (lib_axes (length (shape t)) (reduce_axis obs t))))"

definition channel_max :: "observer \<Rightarrow> tensor \<Rightarrow> rat list" where
  "channel_max obs t = broadcast_to (length (channels obs t)) (abs_max_values obs t)"

definition start_state :: "rat list \<Rightarrow> search_state" where
  "start_state am =
     \<lparr>factor = float64 (3 / 10), minimum_loss = replicate (length am) PInf, result = am\<rparr>"

text \<open>The candidate scales of the 35 rounds, for the entry \<open>m\<close> of \<^verbatim>\<open>abs_max_values\<close>.\<close>

definition candidates :: "rat \<Rightarrow> rat list" where
  "candidates m = map (\<lambda>f. scale_by f m) grid"

text \<open>
  The binary32 values of the 35 factors, as multiples of \<open>2 ^ - 25\<close>: the candidate
  scales for an abs-max of 1.
\<close>

definition scale_numerators :: "int list" where
  "scale_numerators =
     [10066330, 10737418, 11408507, 12079596, 12750684, 13421773, 14092861, 14763950,
      15435039, 16106127, 16777216, 17448304, 18119394, 18790482, 19461570, 20132660,
      20803748, 21474836, 22145926, 22817014, 23488102, 24159192, 24830280, 25501368,
      26172456, 26843546, 27514634, 28185722, 28856812, 29527900, 30198988, 30870078,
      31541166, 32212254, 32883344]"

definition grid32 :: "rat list" where
  "grid32 = map (\<lambda>n. of_int n / 2 ^ 25) scale_numerators"

text \<open>A one-dimensional tensor that can be broadcast to \<open>n\<close> entries.\<close>

definition fits :: "nat \<Rightarrow> 'a list \<Rightarrow> bool" where
  "fits n xs = (length xs = n \<or> length xs = 1)"

text \<open>The channel axis names a dimension of the tensor.\<close>

definition valid_axis :: "observer \<Rightarrow> tensor \<Rightarrow> bool" where
  "valid_axis obs t = (0 \<le> quant_axis obs \<and> quant_axis obs < int (length (shape t)))"

text \<open>A tensor as the search is specified for: well formed, with at least one entry.\<close>

definition nonempty_tensor :: "tensor \<Rightarrow> bool" where
  "nonempty_tensor t = (wf_tensor t \<and> 0 < numel t)"


section \<open>Rounding\<close>

lemma power_int_nat_diff: "power_int (2::rat) (int a - int b) = 2 ^ a / 2 ^ b"
  by (subst power_int_diff) simp_all

lemma binade_le:
  assumes "0 < x"
  shows "power_int 2 (binade x) \<le> x"
proof -
  obtain p q where pq: "quotient_of x = (p, q)" by (cases "quotient_of x")
  have q: "0 < q" using pq by (rule quotient_of_denom_pos)
  have x: "x = of_int p / of_int q" using pq by (rule quotient_of_div)
  have p: "0 < p" using assms x q by (simp add: zero_less_divide_iff)
  let ?e = "bitlen p - bitlen q"
  have ax: "\<bar>x\<bar> = x" using assms by simp
  show ?thesis
  proof (cases "power_int 2 ?e \<le> x")
    case True
    then show ?thesis using pq by (simp add: binade_def ax Let_def)
  next
    case False
    then have b: "binade x = ?e - 1" using pq by (simp add: binade_def ax Let_def)
    have bp: "2 ^ nat (bitlen p - 1) \<le> p" using bitlen_bounds[OF p] by simp
    have bq: "q < 2 ^ nat (bitlen q)" using bitlen_bounds[OF q] by simp
    have p1: "1 \<le> bitlen p" using p bitlen_eq_zero_iff[of p] bitlen_nonneg[of p] by linarith
    have q0: "0 \<le> bitlen q" by (rule bitlen_nonneg)
    have rp: "(2::rat) ^ nat (bitlen p - 1) \<le> of_int p"
      using bp by (metis of_int_le_iff of_int_numeral of_int_power)
    have rq: "(of_int q :: rat) \<le> 2 ^ nat (bitlen q)"
      using bq by (metis less_imp_le of_int_le_iff of_int_numeral of_int_power)
    have e: "?e - 1 = int (nat (bitlen p - 1)) - int (nat (bitlen q))"
      using p1 q0 by simp
    have "power_int (2::rat) (int (nat (bitlen p - 1)) - int (nat (bitlen q))) =
          2 ^ nat (bitlen p - 1) / 2 ^ nat (bitlen q)"
      by (rule power_int_nat_diff)
    also have "\<dots> \<le> of_int p / of_int q"
      using rp rq q p by (intro frac_le) simp_all
    finally have fin: "power_int (2::rat) (int (nat (bitlen p - 1)) - int (nat (bitlen q))) \<le>
        of_int p / of_int q" .
    have "power_int (2::rat) (binade x) \<le> of_int p / of_int q"
      unfolding b e by (rule fin)
    then show ?thesis by (metis x)
  qed
qed

lemma round_ties_even_cases:
  "(round_ties_even y = \<lfloor>y\<rfloor> \<and> y - of_int \<lfloor>y\<rfloor> \<le> 1 / 2) \<or>
   (round_ties_even y = \<lfloor>y\<rfloor> + 1 \<and> 1 / 2 \<le> y - of_int \<lfloor>y\<rfloor>)"
  by (simp add: round_ties_even_def Let_def)

lemma round_ties_even_upper: "of_int (round_ties_even y) \<le> y + 1 / 2"
proof -
  have a: "of_int \<lfloor>y\<rfloor> \<le> y" by simp
  from round_ties_even_cases[of y] show ?thesis
  proof
    assume h: "round_ties_even y = \<lfloor>y\<rfloor> \<and> y - of_int \<lfloor>y\<rfloor> \<le> 1 / 2"
    then have "round_ties_even y = \<lfloor>y\<rfloor>" by simp
    then show ?thesis using a by linarith
  next
    assume h: "round_ties_even y = \<lfloor>y\<rfloor> + 1 \<and> 1 / 2 \<le> y - of_int \<lfloor>y\<rfloor>"
    then have "of_int (round_ties_even y) = of_int \<lfloor>y\<rfloor> + (1::rat)" by simp
    then show ?thesis using h by linarith
  qed
qed

lemma round_ties_even_lower: "y - 1 / 2 \<le> of_int (round_ties_even y)"
proof -
  have a: "y < of_int \<lfloor>y\<rfloor> + 1" by linarith
  from round_ties_even_cases[of y] show ?thesis
  proof
    assume h: "round_ties_even y = \<lfloor>y\<rfloor> \<and> y - of_int \<lfloor>y\<rfloor> \<le> 1 / 2"
    then have "round_ties_even y = \<lfloor>y\<rfloor>" by simp
    then show ?thesis using h by linarith
  next
    assume h: "round_ties_even y = \<lfloor>y\<rfloor> + 1 \<and> 1 / 2 \<le> y - of_int \<lfloor>y\<rfloor>"
    then have "of_int (round_ties_even y) = of_int \<lfloor>y\<rfloor> + (1::rat)" by simp
    then show ?thesis using a by linarith
  qed
qed

lemma ulp_half: "power_int (2::rat) (e - int p + 1) / 2 = power_int 2 e / 2 ^ p"
proof -
  have "power_int (2::rat) (e - int p + 1) = power_int 2 (e - int p) * 2"
    by (simp add: power_int_add)
  also have "power_int (2::rat) (e - int p) = power_int 2 e / 2 ^ p"
    by (subst power_int_diff) simp_all
  finally show ?thesis by simp
qed

lemma round_float_upper:
  assumes "0 < x"
  shows "round_float p x \<le> x + x / 2 ^ p"
proof -
  let ?u = "power_int (2::rat) (binade x - int p + 1)"
  have u: "0 < ?u" by simp
  have "round_float p x = of_int (round_ties_even (x / ?u)) * ?u"
    using assms by (simp add: round_float_def Let_def)
  also have "\<dots> \<le> (x / ?u + 1 / 2) * ?u"
    using round_ties_even_upper[of "x / ?u"] u by (intro mult_right_mono) simp_all
  also have "\<dots> = x + ?u / 2"
    using u by (simp add: field_simps)
  also have "\<dots> = x + power_int 2 (binade x) / 2 ^ p"
    by (simp only: ulp_half)
  also have "\<dots> \<le> x + x / 2 ^ p"
    using binade_le[OF assms] by (simp add: divide_right_mono)
  finally show ?thesis .
qed

lemma round_float_lower:
  assumes "0 < x"
  shows "x - x / 2 ^ p \<le> round_float p x"
proof -
  let ?u = "power_int (2::rat) (binade x - int p + 1)"
  have u: "0 < ?u" by simp
  have "x - x / 2 ^ p \<le> x - power_int 2 (binade x) / 2 ^ p"
    using binade_le[OF assms] by (simp add: divide_right_mono)
  also have "\<dots> = x - ?u / 2"
    by (simp only: ulp_half)
  also have "\<dots> = (x / ?u - 1 / 2) * ?u"
    using u by (simp add: field_simps)
  also have "\<dots> \<le> of_int (round_ties_even (x / ?u)) * ?u"
    using round_ties_even_lower[of "x / ?u"] u by (intro mult_right_mono) simp_all
  also have "\<dots> = round_float p x"
    using assms by (simp add: round_float_def Let_def)
  finally show ?thesis .
qed

lemma round_float_pos:
  assumes "0 < x" "0 < p"
  shows "0 < round_float p x"
proof -
  have "(2::rat) ^ 1 \<le> 2 ^ p" using assms(2) by (intro power_increasing) simp_all
  then have "(2::rat) \<le> 2 ^ p" by simp
  then have "x / 2 ^ p \<le> x / 2" using assms(1) by (intro divide_left_mono) simp_all
  then have "0 < x - x / 2 ^ p" using assms(1) by linarith
  then show ?thesis using round_float_lower[OF assms(1), of p] by linarith
qed

text \<open>The candidate scale of a factor below 0.99 is positive and at most the abs-max.\<close>

lemma float32_bounds:
  assumes "0 < f"
  shows "0 < float32 f" "float32 f \<le> f + f / 2 ^ 24" "f - f / 2 ^ 24 \<le> float32 f"
  unfolding float32_def
  using round_float_pos[OF assms, of 24] round_float_upper[OF assms, of 24]
    round_float_lower[OF assms, of 24] by simp_all

lemma scale_by_bounds:
  assumes "0 < f" "f \<le> 98 / 100 + 1 / 1000" "0 < m"
  shows "0 < scale_by f m" and "scale_by f m \<le> m"
proof -
  have f32: "0 < float32 f" using assms(1) by (rule float32_bounds)
  have "float32 f \<le> f + f / 2 ^ 24" using assms(1) by (rule float32_bounds)
  then have fu: "float32 f \<le> 99 / 100" using assms(2) by simp
  have x: "0 < float32 f * m" using f32 assms(3) by simp
  show "0 < scale_by f m" unfolding scale_by_def using x by (rule float32_bounds)
  have "scale_by f m \<le> float32 f * m + float32 f * m / 2 ^ 24"
    unfolding scale_by_def using x by (rule float32_bounds)
  also have "\<dots> = float32 f * (m * (1 + 1 / 2 ^ 24))" by (simp add: algebra_simps)
  also have "\<dots> \<le> 99 / 100 * (m * (1 + 1 / 2 ^ 24))"
    using fu assms(3) by (intro mult_right_mono) simp_all
  also have "\<dots> \<le> m" using assms(3) by simp
  finally show "scale_by f m \<le> m" .
qed

lemma scale_by_lower:
  assumes "29 / 100 \<le> f" "0 < m"
  shows "28 / 100 * m \<le> scale_by f m"
proof -
  have f0: "0 < f" using assms(1) by simp
  have "f - f / 2 ^ 24 \<le> float32 f" using f0 by (rule float32_bounds)
  then have fl: "285 / 1000 \<le> float32 f" using assms(1) by simp
  then have x: "0 < float32 f * m" using assms(2) by simp
  have "28 / 100 * m \<le> 285 / 1000 * (m * (1 - 1 / 2 ^ 24))" using assms(2) by simp
  also have "\<dots> \<le> float32 f * (m * (1 - 1 / 2 ^ 24))"
    using fl assms(2) by (intro mult_right_mono) simp_all
  also have "\<dots> = float32 f * m - float32 f * m / 2 ^ 24" by (simp add: algebra_simps)
  also have "\<dots> \<le> scale_by f m"
    unfolding scale_by_def using x by (rule float32_bounds)
  finally show ?thesis .
qed

section \<open>The model on concrete values\<close>

text \<open>
  The literals of the source, as Python reads them:
  \<^verbatim>\<open>(0.3).as_integer_ratio()\<close> is \<open>(5404319552844595, 2 ^ 54)\<close> and
  \<^verbatim>\<open>(0.02).as_integer_ratio()\<close> is \<open>(5764607523034235, 2 ^ 58)\<close>; the first sum
  \<^verbatim>\<open>0.3 + 0.02\<close> is \<open>5764607523034235 / 2 ^ 54\<close>.
\<close>

lemma float64_literals:
  "float64 (3 / 10) = 5404319552844595 / 2 ^ 54"
  "float64 (2 / 100) = 5764607523034235 / 2 ^ 58"
  "next_factor (float64 (3 / 10)) = 5764607523034235 / 2 ^ 54"
  by code_simp+

text \<open>
  The binary32 numbers of the search: \<^verbatim>\<open>np.float32(1e-8)\<close> is \<open>11258999 / 2 ^ 50\<close>,
  a little below the binary64 number \<^verbatim>\<open>1e-8\<close>; the first candidate scale for an abs-max
  of that value, \<^verbatim>\<open>0.3 * np.float32(1e-8)\<close> in binary32, is \<open>13510799 / 2 ^ 52\<close>; the
  last candidate scale for an abs-max of 1 is \<open>16441672 / 2 ^ 24\<close>, which prints as
  0.9800000190734863.
\<close>

lemma float32_literals:
  "eps = 11258999 / 2 ^ 50"
  "eps < float64 (1 / 100000000)"
  "float32 (float64 (3 / 10)) = 10066330 / 2 ^ 25"
  "scale_by (float64 (3 / 10)) eps = 13510799 / 2 ^ 52"
  "scale_by (17654110539292354 / 2 ^ 54) 1 = 16441672 / 2 ^ 24"
  by code_simp+

text \<open>
  The library's equality of floats: below \<^verbatim>\<open>1e-8\<close> a number equals zero.
\<close>

lemma float_equal_examples:
  "float_equal 0 0" "float_equal (1 / 2 ^ 30) 0" "\<not> float_equal (1 / 2 ^ 26) 0"
  by code_simp+

text \<open>Ties go to the even neighbour, and halves are rounded away from zero by \<^verbatim>\<open>paddle.round\<close>.\<close>

lemma rounding_examples:
  "round_float 3 (9 / 8) = 1" "round_float 3 (11 / 8) = 3 / 2" "round_float 3 (- 11 / 8) = - 3 / 2"
  "paddle_round (5 / 2) = 3" "paddle_round (- 5 / 2) = - 3" "paddle_round (7 / 5) = 1"
  by code_simp+

text \<open>
  The example of the specification, a tensor of two rows and four columns: its channels
  along axis 0 are the rows, along axis 1 the columns. With an axis that names no
  dimension, one abs-max is taken over the whole tensor and the groups of the mean are
  the positions along the last dimension. A tensor of one dimension with axis 0 is
  reduced as a whole.
\<close>

lemma channels_examples:
  "channels (init 0 8) \<lparr>shape = [2, 4], data = [1, 2, 3, 4, 10, 20, 30, - 40]\<rparr> =
     [[1, 2, 3, 4], [10, 20, 30, - 40]]"
  "channels (init 1 8) \<lparr>shape = [2, 4], data = [1, 2, 3, 4, 10, 20, 30, - 40]\<rparr> =
     [[1, 10], [2, 20], [3, 30], [4, - 40]]"
  "abs_max_values (init 0 8) \<lparr>shape = [2, 4], data = [1, 2, 3, 4, 10, 20, 30, - 40]\<rparr> = [4, 40]"
  "channels (init 2 8) \<lparr>shape = [2, 2], data = [1, 2, 3, 4]\<rparr> = [[1, 3], [2, 4]]"
  "abs_max_values (init 2 8) \<lparr>shape = [2, 2], data = [1, 2, 3, 4]\<rparr> = [4]"
  "channel_max (init 2 8) \<lparr>shape = [2, 2], data = [1, 2, 3, 4]\<rparr> = [4, 4]"
  "channels (init 0 8) \<lparr>shape = [3], data = [1, 2, 3]\<rparr> = [[1, 2, 3]]"
  "channels (init 1 8) \<lparr>shape = [3], data = [1, 2, 3]\<rparr> = [[1], [2], [3]]"
  "groups \<lparr>shape = [2, 3, 2], data = [1, 2, 3, 4, 5, 6, 7, 8, 9, 10, 11, 12]\<rparr> [0, 2] =
     [[1, 2, 7, 8], [3, 4, 9, 10], [5, 6, 11, 12]]"
  by code_simp+

section \<open>The values of the loop counter\<close>

text \<open>
  Thirty-five binary64 additions of 0.02 to 0.3, each checked by evaluation. The
  thirty-sixth value is \<open>1 + 2 ^ - 51\<close>, above 1.
\<close>

lemma grid_steps: "steps_ok (grid @ [18014398509481992 / 2 ^ 54])"
  by code_simp

lemma grid_hd: "hd grid = float64 (3 / 10)"
  by code_simp

lemma grid_bounds: "list_all (\<lambda>f. 0 < f \<and> f < 1) grid"
  by code_simp

lemma grid_length: "length grid = 35"
  by (simp add: grid_def factor_numerators_def)

lemma steps_ok_seq: "steps_ok (f # xs) \<Longrightarrow> factor_seq (Suc (length xs)) f = f # xs"
  by (induction xs arbitrary: f) auto

lemma grid_nonempty: "grid \<noteq> []"
  using grid_length by auto

lemma steps_ok_seq_hd: "xs \<noteq> [] \<Longrightarrow> steps_ok xs \<Longrightarrow> factor_seq (length xs) (hd xs) = xs"
  using steps_ok_seq[of "hd xs" "tl xs"] by (cases xs) simp_all

lemma factor_seq_36: "factor_seq 36 (float64 (3 / 10)) = grid @ [18014398509481992 / 2 ^ 54]"
proof -
  have "hd (grid @ [18014398509481992 / 2 ^ 54]) = float64 (3 / 10)"
    using grid_nonempty grid_hd by simp
  moreover have "length (grid @ [18014398509481992 / 2 ^ 54]) = 36"
    using grid_length by simp
  ultimately show ?thesis
    using steps_ok_seq_hd[OF _ grid_steps] by simp
qed

lemma factor_seq_length: "length (factor_seq n f) = n"
  by (induction n arbitrary: f) auto

lemma factor_seq_snoc: "factor_seq (Suc n) f = factor_seq n f @ [(next_factor ^^ n) f]"
  by (induction n arbitrary: f) (simp_all add: funpow_swap1)

lemma factor_seq_35: "factor_seq 35 (float64 (3 / 10)) = grid"
proof -
  have "factor_seq (Suc 35) (float64 (3 / 10)) = grid @ [18014398509481992 / 2 ^ 54]"
    using factor_seq_36 by simp
  then show ?thesis
    unfolding factor_seq_snoc[of 35] by simp
qed

lemma factor_after_35: "(next_factor ^^ 35) (float64 (3 / 10)) = 18014398509481992 / 2 ^ 54"
proof -
  have "factor_seq (Suc 35) (float64 (3 / 10)) = grid @ [18014398509481992 / 2 ^ 54]"
    using factor_seq_36 by simp
  then show ?thesis
    unfolding factor_seq_snoc[of 35] by simp
qed

lemma factor_loop_body: "factor (loop_body lossf obs ch am st) = next_factor (factor st)"
  by (simp add: loop_body_def next_factor_def Let_def)

lemma factor_funpow: "factor ((loop_body lossf obs ch am ^^ n) st) = (next_factor ^^ n) (factor st)"
  by (induction n) (simp_all add: factor_loop_body)

lemma search_loop_unroll:
  assumes "factor_seq (Suc n) (factor st) = fs @ [fl]" "list_all (\<lambda>f. f \<le> 1) fs" "\<not> fl \<le> 1"
  shows "search_loop lossf obs ch am st = Some ((loop_body lossf obs ch am ^^ n) st)"
  using assms
proof (induction n arbitrary: st fs)
  case 0
  then have "fl = factor st" by simp
  with 0 show ?case by (subst search_loop.simps) simp
next
  case (Suc n)
  from Suc.prems(1)
  have eq: "factor st # factor_seq (Suc n) (next_factor (factor st)) = fs @ [fl]" by simp
  then obtain fs' where fs: "fs = factor st # fs'"
    and tl: "factor_seq (Suc n) (next_factor (factor st)) = fs' @ [fl]"
    by (cases fs) auto
  have le: "factor st \<le> 1" using Suc.prems(2) fs by simp
  have "search_loop lossf obs ch am (loop_body lossf obs ch am st) =
        Some ((loop_body lossf obs ch am ^^ n) (loop_body lossf obs ch am st))"
    by (rule Suc.IH[where fs = fs']) (use tl fs Suc.prems in \<open>simp_all add: factor_loop_body\<close>)
  then show ?case using le by (subst search_loop.simps) (simp add: funpow_swap1)
qed

lemma search_loop_from_start:
  assumes "factor st = float64 (3 / 10)"
  shows "search_loop lossf obs ch am st = Some ((loop_body lossf obs ch am ^^ 35) st)"
proof (rule search_loop_unroll[where fs = grid and fl = "18014398509481992 / 2 ^ 54"])
  show "factor_seq (Suc 35) (factor st) = grid @ [18014398509481992 / 2 ^ 54]"
    using factor_seq_36 assms by simp
  show "list_all (\<lambda>f. f \<le> 1) grid"
    using grid_bounds by (auto simp: list_all_iff)
  show "\<not> (18014398509481992 / 2 ^ 54 :: rat) \<le> 1" by simp
qed

lemma length_broadcast_to: "fits n xs \<Longrightarrow> length (broadcast_to n xs) = n"
  by (auto simp: fits_def broadcast_to_def)

lemma broadcast_to_same: "length xs = n \<Longrightarrow> broadcast_to n xs = xs"
  by (cases xs) (auto simp: broadcast_to_def)

lemma broadcast_to_map: "broadcast_to n (map f xs) = map f (broadcast_to n xs)"
  by (cases xs) (auto simp: broadcast_to_def)

lemma fits_same: "length xs = n \<Longrightarrow> fits n xs"
  by (simp add: fits_def)

lemma loop_body_length:
  assumes "fits N am" "length ch = N" "fits N (minimum_loss st)" "fits N (result st)"
  shows "length (minimum_loss (loop_body lossf obs ch am st)) = N"
    and "length (result (loop_body lossf obs ch am st)) = N"
  using assms
  by (simp_all add: loop_body_def paddle_where_def Let_def length_broadcast_to broadcast_to_map)

lemma loop_body_nth:
  assumes "fits N am" "length ch = N" "fits N (minimum_loss st)" "fits N (result st)"
    and "c < N"
  shows "(minimum_loss (loop_body lossf obs ch am st) ! c,
          result (loop_body lossf obs ch am st) ! c) =
         chan_step lossf (qmin obs) (qmax obs) (ch ! c) (broadcast_to N am ! c) (factor st)
           (broadcast_to N (minimum_loss st) ! c, broadcast_to N (result st) ! c)"
  using assms
  by (simp add: loop_body_def chan_step_def paddle_where_def Let_def length_broadcast_to
      broadcast_to_map)

lemma funpow_nth:
  assumes "fits N am" "length ch = N" "fits N (minimum_loss st)" "fits N (result st)"
    and "c < N"
  shows "fits N (minimum_loss ((loop_body lossf obs ch am ^^ n) st)) \<and>
         fits N (result ((loop_body lossf obs ch am ^^ n) st)) \<and>
         (broadcast_to N (minimum_loss ((loop_body lossf obs ch am ^^ n) st)) ! c,
          broadcast_to N (result ((loop_body lossf obs ch am ^^ n) st)) ! c) =
         chan_search lossf (qmin obs) (qmax obs) (ch ! c) (broadcast_to N am ! c)
           (factor_seq n (factor st))
           (broadcast_to N (minimum_loss st) ! c, broadcast_to N (result st) ! c)"
  using assms
proof (induction n arbitrary: st)
  case 0
  then show ?case by simp
next
  case (Suc n)
  let ?st = "loop_body lossf obs ch am st"
  have l: "length (minimum_loss ?st) = N" "length (result ?st) = N"
    using loop_body_length[OF Suc.prems(1-4)] by simp_all
  have f: "fits N (minimum_loss ?st)" "fits N (result ?st)"
    using l by (simp_all add: fits_same)
  have "(loop_body lossf obs ch am ^^ Suc n) st = (loop_body lossf obs ch am ^^ n) ?st"
    by (simp add: funpow_swap1)
  then show ?case
    using Suc.IH[OF Suc.prems(1,2) f Suc.prems(5)] loop_body_nth[OF Suc.prems, of lossf obs]
    by (simp add: factor_loop_body broadcast_to_same l)
qed

lemma funpow_length:
  assumes "fits N am" "length ch = N" "fits N (minimum_loss st)" "fits N (result st)"
  shows "length (minimum_loss ((loop_body lossf obs ch am ^^ Suc n) st)) = N \<and>
         length (result ((loop_body lossf obs ch am ^^ Suc n) st)) = N"
  using assms
proof (induction n arbitrary: st)
  case 0
  then show ?case using loop_body_length[OF 0] by simp
next
  case (Suc n)
  let ?st = "loop_body lossf obs ch am st"
  have l: "length (minimum_loss ?st) = N" "length (result ?st) = N"
    using loop_body_length[OF Suc.prems(1-4)] by simp_all
  have f: "fits N (minimum_loss ?st)" "fits N (result ?st)"
    using l by (simp_all add: fits_same)
  have "(loop_body lossf obs ch am ^^ Suc (Suc n)) st = (loop_body lossf obs ch am ^^ Suc n) ?st"
    by (simp only: funpow_swap1 funpow.simps o_apply)
  then show ?case
    using Suc.IH[OF Suc.prems(1,2) f] by simp
qed

lemma factor_seq_map: "factor_seq n f = map (\<lambda>i. (next_factor ^^ i) f) [0..<n]"
proof (induction n)
  case 0
  show ?case by simp
next
  case (Suc n)
  then show ?case by (simp add: factor_seq_snoc del: factor_seq.simps)
qed

section \<open>The groups of a reduction\<close>

lemma filter_axis_upt:
  "filter (\<lambda>i. int i = a) [0..<n] = (if 0 \<le> a \<and> a < int n then [nat a] else [])"
  by (induction n) auto

lemma reduce_axis_invalid:
  assumes "\<not> valid_axis obs t"
  shows "reduce_axis obs t = [0..<length (shape t)]"
proof -
  have "\<forall>i\<in>set [0..<length (shape t)]. int i \<noteq> quant_axis obs"
    using assms by (auto simp: valid_axis_def)
  then show ?thesis unfolding reduce_axis_def by (simp only: filter_True)
qed

lemma length_reduce_axis:
  "length (reduce_axis obs t) =
     (if valid_axis obs t then length (shape t) - 1 else length (shape t))"
proof (cases "valid_axis obs t")
  case True
  have "length (filter (\<lambda>i. int i = quant_axis obs) [0..<length (shape t)]) = 1"
    using True by (simp add: filter_axis_upt valid_axis_def)
  moreover have "length (filter (\<lambda>i. int i = quant_axis obs) [0..<length (shape t)]) +
        length (filter (\<lambda>i. \<not> int i = quant_axis obs) [0..<length (shape t)]) =
        length [0..<length (shape t)]"
    by (rule sum_length_filter_compl)
  ultimately show ?thesis using True by (simp add: reduce_axis_def)
next
  case False
  then show ?thesis by (simp add: reduce_axis_invalid)
qed

lemma kept_axes_reduce_axis:
  "kept_axes (shape t) (reduce_axis obs t) = (if valid_axis obs t then [nat (quant_axis obs)] else [])"
proof -
  have "kept_axes (shape t) (reduce_axis obs t) =
        filter (\<lambda>i. int i = quant_axis obs) [0..<length (shape t)]"
    unfolding kept_axes_def reduce_axis_def by (rule filter_cong) auto
  then show ?thesis by (simp add: filter_axis_upt valid_axis_def)
qed

lemma kept_axes_all: "kept_axes sh [0..<length sh] = []"
  by (simp add: kept_axes_def)

lemma kept_axes_leading: "kept_axes (d # sh) [0..<length sh] = [length sh]"
proof -
  have "filter (\<lambda>i. i \<notin> set [0..<length sh]) ([0..<length sh] @ [length sh]) = [length sh]"
    by simp
  then show ?thesis by (simp add: kept_axes_def)
qed

text \<open>The dimensions the maximum of line 67 keeps.\<close>

lemma kept_axes_max:
  "kept_axes (shape t) (lib_axes (length (shape t)) (reduce_axis obs t)) =
     (if valid_axis obs t \<and> 2 \<le> length (shape t) then [nat (quant_axis obs)] else [])"
proof (cases "valid_axis obs t \<and> 2 \<le> length (shape t)")
  case True
  then have "length (reduce_axis obs t) = length (shape t) - 1" by (simp add: length_reduce_axis)
  then have "reduce_axis obs t \<noteq> []" "length (reduce_axis obs t) \<noteq> length (shape t)"
    using True by auto
  then show ?thesis using True by (simp add: lib_axes_def kept_axes_reduce_axis)
next
  case False
  have "reduce_axis obs t = [] \<or> length (reduce_axis obs t) = length (shape t)"
  proof (cases "valid_axis obs t")
    case True
    then have "length (shape t) < 2" using False by simp
    then have "length (reduce_axis obs t) = 0" using True by (simp add: length_reduce_axis)
    then show ?thesis by simp
  next
    case False
    then show ?thesis by (simp add: length_reduce_axis)
  qed
  then show ?thesis using False by (simp add: lib_axes_def kept_axes_all)
qed

text \<open>The tensor of line 77 and the dimensions the mean of line 82 keeps.\<close>

lemma shape_expanded_inputs:
  "shape (expanded_inputs obs t) = (if valid_axis obs t then shape t else 1 # shape t)"
proof (cases "valid_axis obs t")
  case True
  then have "0 < length (shape t)" by (auto simp: valid_axis_def)
  moreover have "length (reduce_axis obs t) = length (shape t) - 1"
    using True by (simp add: length_reduce_axis)
  ultimately have "length (reduce_axis obs t) \<noteq> length (shape t)" by linarith
  then show ?thesis using True by (simp add: expanded_inputs_def)
next
  case False
  then show ?thesis by (simp add: expanded_inputs_def length_reduce_axis)
qed

lemma data_expanded_inputs: "data (expanded_inputs obs t) = data t"
  by (simp add: expanded_inputs_def)

lemma numel_expanded_inputs: "numel (expanded_inputs obs t) = numel t"
  by (simp add: numel_def shape_expanded_inputs)

lemma kept_axes_mean:
  "kept_axes (shape (expanded_inputs obs t))
     (lib_axes (length (shape (expanded_inputs obs t))) (reduce_axis obs t)) =
     (if valid_axis obs t \<and> 2 \<le> length (shape t) then [nat (quant_axis obs)]
      else if \<not> valid_axis obs t \<and> shape t \<noteq> [] then [length (shape t)]
      else [])"
proof (cases "valid_axis obs t")
  case True
  then show ?thesis using kept_axes_max[of t obs] by (simp add: shape_expanded_inputs)
next
  case False
  note inv = False
  have ra: "reduce_axis obs t = [0..<length (shape t)]" using inv by (rule reduce_axis_invalid)
  show ?thesis
  proof (cases "shape t = []")
    case True
    then show ?thesis using inv ra by (simp add: shape_expanded_inputs lib_axes_def kept_axes_def)
  next
    case False
    then have "lib_axes (Suc (length (shape t))) [0..<length (shape t)] = [0..<length (shape t)]"
      by (simp add: lib_axes_def)
    then show ?thesis using inv ra False
      by (simp add: shape_expanded_inputs kept_axes_leading)
  qed
qed

lemma length_channels:
  "length (channels obs t) =
     (if valid_axis obs t \<and> 2 \<le> length (shape t) then shape t ! nat (quant_axis obs)
      else if \<not> valid_axis obs t \<and> shape t \<noteq> [] then last (shape t)
      else 1)"
proof -
  let ?E = "expanded_inputs obs t"
  have l: "(1 # shape t) ! length (shape t) = last (shape t)" if "shape t \<noteq> []"
    using that by (cases "shape t" rule: rev_cases) (simp_all add: nth_append nth_Cons')
  have "length (channels obs t) =
        prod_list (map (\<lambda>i. shape ?E ! i)
          (kept_axes (shape ?E) (lib_axes (length (shape ?E)) (reduce_axis obs t))))"
    by (simp add: channels_def groups_def reduced_shape_def)
  also have "\<dots> =
        prod_list (map (\<lambda>i. shape ?E ! i)
          (if valid_axis obs t \<and> 2 \<le> length (shape t) then [nat (quant_axis obs)]
           else if \<not> valid_axis obs t \<and> shape t \<noteq> [] then [length (shape t)]
           else []))"
    by (simp only: kept_axes_mean)
  also have "\<dots> =
     (if valid_axis obs t \<and> 2 \<le> length (shape t) then shape t ! nat (quant_axis obs)
      else if \<not> valid_axis obs t \<and> shape t \<noteq> [] then last (shape t)
      else 1)"
    using l by (auto simp: shape_expanded_inputs)
  finally show ?thesis .
qed

lemma length_abs_max_values:
  "length (abs_max_values obs t) =
     (if valid_axis obs t \<and> 2 \<le> length (shape t) then shape t ! nat (quant_axis obs) else 1)"
  by (simp add: abs_max_values_def groups_def reduced_shape_def kept_axes_max)

lemma fits_abs_max_values: "fits (length (channels obs t)) (abs_max_values obs t)"
  by (simp add: fits_def length_channels length_abs_max_values)

lemma channels_valid:
  assumes "valid_axis obs t" "2 \<le> length (shape t)"
  shows "channels obs t = groups t (reduce_axis obs t)"
    and "abs_max_values obs t =
         map (\<lambda>m. if float_equal m 0 then eps else m) (map abs_max_of (channels obs t))"
    and "channel_max obs t = abs_max_values obs t"
proof -
  have "length (reduce_axis obs t) = length (shape t) - 1"
    using assms by (simp add: length_reduce_axis)
  then have l: "lib_axes (length (shape t)) (reduce_axis obs t) = reduce_axis obs t"
    using assms(2) by (auto simp: lib_axes_def)
  have e: "expanded_inputs obs t = t"
    using assms \<open>length (reduce_axis obs t) = length (shape t) - 1\<close>
    by (simp add: expanded_inputs_def)
  show c: "channels obs t = groups t (reduce_axis obs t)"
    by (simp add: channels_def e l)
  show "abs_max_values obs t =
         map (\<lambda>m. if float_equal m 0 then eps else m) (map abs_max_of (channels obs t))"
    by (simp add: abs_max_values_def c l)
  show "channel_max obs t = abs_max_values obs t"
    using assms by (simp add: channel_max_def broadcast_to_same length_channels length_abs_max_values)
qed

lemma prod_list_split:
  assumes "a < length sh"
  shows "prod_list sh = prod_list (take a sh) * (sh ! a * prod_list (drop (Suc a) sh))"
proof -
  have "sh = take a sh @ sh ! a # drop (Suc a) sh"
    using assms by (rule id_take_nth_drop)
  then have "prod_list sh = prod_list (take a sh @ sh ! a # drop (Suc a) sh)" by simp
  then show ?thesis by simp
qed

lemma coord_witness:
  assumes "a < length sh" "0 < prod_list sh" "c < sh ! a"
  shows "c * prod_list (drop (Suc a) sh) < prod_list sh"
    and "coord sh a (c * prod_list (drop (Suc a) sh)) = c"
proof -
  let ?S = "prod_list (drop (Suc a) sh)"
  let ?P = "prod_list (take a sh)"
  have split: "prod_list sh = ?P * (sh ! a * ?S)" using assms(1) by (rule prod_list_split)
  have S: "0 < ?S" and P: "0 < ?P" using assms(2) split by simp_all
  have "c * ?S < sh ! a * ?S" using assms(3) S by simp
  also have "\<dots> \<le> ?P * (sh ! a * ?S)" using P by simp
  finally show "c * ?S < prod_list sh" using split by simp
  show "coord sh a (c * ?S) = c" using S assms(3) by (simp add: coord_def)
qed

text \<open>A reduction that keeps at most one dimension of a non-empty tensor has no empty group.\<close>

lemma groups_nonempty:
  assumes "0 < numel t"
    and "kept_axes (shape t) axes = [] \<or> (\<exists>a<length (shape t). kept_axes (shape t) axes = [a])"
    and "c < length (groups t axes)"
  shows "groups t axes ! c \<noteq> []"
proof -
  have p: "0 < prod_list (shape t)" using assms(1) by (simp add: numel_def)
  have "\<exists>k<numel t. reduced_index (shape t) axes k = c"
    using assms(2)
  proof
    assume k: "kept_axes (shape t) axes = []"
    then have "c = 0" using assms(3) by (simp add: groups_def reduced_shape_def)
    then show ?thesis using assms(1) k by (auto simp: reduced_index_def)
  next
    assume "\<exists>a<length (shape t). kept_axes (shape t) axes = [a]"
    then obtain a where a: "a < length (shape t)" and k: "kept_axes (shape t) axes = [a]"
      by blast
    have c: "c < shape t ! a" using assms(3) k by (simp add: groups_def reduced_shape_def)
    show ?thesis
      using coord_witness[OF a p c] k by (auto simp: reduced_index_def numel_def)
  qed
  then obtain k where "k < numel t" "reduced_index (shape t) axes k = c"
    by blast
  then have "k \<in> set (filter (\<lambda>k. reduced_index (shape t) axes k = c) [0..<numel t])"
    by simp
  then have "filter (\<lambda>k. reduced_index (shape t) axes k = c) [0..<numel t] \<noteq> []"
    by (metis empty_iff empty_set)
  then show ?thesis using assms(3) by (simp add: groups_def)
qed

lemma channels_nonempty:
  assumes "0 < numel t" "c < length (channels obs t)"
  shows "channels obs t ! c \<noteq> []"
proof -
  let ?E = "expanded_inputs obs t"
  let ?K = "kept_axes (shape ?E) (lib_axes (length (shape ?E)) (reduce_axis obs t))"
  have v: "nat (quant_axis obs) < length (shape t)" if "valid_axis obs t"
    using that by (auto simp: valid_axis_def)
  have k: "?K = (if valid_axis obs t \<and> 2 \<le> length (shape t) then [nat (quant_axis obs)]
      else if \<not> valid_axis obs t \<and> shape t \<noteq> [] then [length (shape t)]
      else [])"
    by (rule kept_axes_mean)
  have "?K = [] \<or> (\<exists>a<length (shape ?E). ?K = [a])"
  proof (cases "valid_axis obs t")
    case True
    then have "shape ?E = shape t" by (simp add: shape_expanded_inputs)
    then show ?thesis unfolding k using True v by auto
  next
    case False
    then have "shape ?E = 1 # shape t" by (simp add: shape_expanded_inputs)
    then show ?thesis unfolding k using False by auto
  qed
  then show ?thesis
    using assms unfolding channels_def
    by (intro groups_nonempty) (simp_all add: numel_expanded_inputs)
qed

section \<open>The maximum of the absolute values\<close>

lemma fold_max_ge: "m \<le> fold (\<lambda>y m. max \<bar>y\<bar> m) xs (m::rat)"
proof (induction xs arbitrary: m)
  case Nil
  show ?case by simp
next
  case (Cons x xs)
  have "m \<le> max \<bar>x\<bar> m" by simp
  also have "\<dots> \<le> fold (\<lambda>y m. max \<bar>y\<bar> m) xs (max \<bar>x\<bar> m)" by (rule Cons.IH)
  finally show ?case by simp
qed

lemma abs_max_of_nonneg: "0 \<le> abs_max_of g"
proof (cases g)
  case Nil
  then show ?thesis by simp
next
  case (Cons x xs)
  have "0 \<le> \<bar>x\<bar>" by simp
  also have "\<dots> \<le> fold (\<lambda>y m. max \<bar>y\<bar> m) xs \<bar>x\<bar>" by (rule fold_max_ge)
  finally show ?thesis using Cons by simp
qed

lemma fold_max_zero: "\<forall>x\<in>set xs. x = 0 \<Longrightarrow> fold (\<lambda>y m. max \<bar>y\<bar> m) xs (0::rat) = 0"
  by (induction xs) simp_all

lemma abs_max_of_zero: "\<forall>x\<in>set g. x = 0 \<Longrightarrow> abs_max_of g = 0"
  by (cases g) (simp_all add: fold_max_zero)

lemma abs_max_of_Max: "g \<noteq> [] \<Longrightarrow> abs_max_of g = Max ((\<lambda>x. \<bar>x\<bar>) ` set g)"
proof (cases g)
  case Nil
  assume "g \<noteq> []"
  with Nil show ?thesis by simp
next
  case (Cons x xs)
  have "Max ((\<lambda>x. \<bar>x\<bar>) ` set g) = Max (set (map (\<lambda>x. \<bar>x\<bar>) (x # xs)))"
    using Cons by simp
  also have "\<dots> = fold max (map (\<lambda>x. \<bar>x\<bar>) xs) \<bar>x\<bar>"
    by (simp only: list.map Max.set_eq_fold)
  also have "\<dots> = fold (\<lambda>y m. max \<bar>y\<bar> m) xs \<bar>x\<bar>"
    by (simp add: fold_map comp_def)
  finally show ?thesis using Cons by simp
qed

lemma eps_value: "eps = 11258999 / 2 ^ 50"
  by code_simp

lemma eps_pos: "0 < eps"
  by (simp add: eps_value)

lemma tolerance_pos: "0 < float64 (1 / 100000000)"
  unfolding float64_def by (rule round_float_pos) simp_all

lemma where_zero_pos:
  assumes "0 \<le> m"
  shows "0 < (if float_equal m 0 then eps else m)"
  using assms eps_pos tolerance_pos by (auto simp: float_equal_def)

lemma abs_max_values_pos:
  assumes "x \<in> set (abs_max_values obs t)"
  shows "0 < x"
proof -
  from assms have "x \<in> (\<lambda>g. if float_equal (abs_max_of g) 0 then eps else abs_max_of g) `
            set (groups t (lib_axes (length (shape t)) (reduce_axis obs t)))"
    unfolding abs_max_values_def by (simp only: set_map image_image)
  then obtain g where "x = (if float_equal (abs_max_of g) 0 then eps else abs_max_of g)"
    by (rule imageE)
  then show ?thesis using where_zero_pos[OF abs_max_of_nonneg, of g] by (simp only:)
qed

lemma broadcast_to_nth_in_set:
  assumes "fits n xs" "c < n"
  shows "broadcast_to n xs ! c \<in> set xs"
proof (cases "length xs = 1")
  case True
  then obtain x where "xs = [x]" by (cases xs) auto
  then show ?thesis using assms(2) by (simp add: broadcast_to_def)
next
  case False
  then have "length xs = n" using assms(1) by (simp add: fits_def)
  then show ?thesis using False assms(2) by (simp add: broadcast_to_def)
qed

lemma channel_max_pos:
  assumes "c < length (channels obs t)"
  shows "0 < channel_max obs t ! c"
  unfolding channel_max_def
  using broadcast_to_nth_in_set[OF fits_abs_max_values assms] by (rule abs_max_values_pos)

lemma length_channel_max: "length (channel_max obs t) = length (channels obs t)"
  unfolding channel_max_def using fits_abs_max_values by (rule length_broadcast_to)

lemma channel_max_nth:
  assumes "valid_axis obs t" "2 \<le> length (shape t)" "c < length (channels obs t)"
  shows "channel_max obs t ! c =
     (if float_equal (abs_max_of (channels obs t ! c)) 0 then eps
      else abs_max_of (channels obs t ! c))"
  using assms(3) unfolding channels_valid(3)[OF assms(1,2)]
  by (subst channels_valid(2)[OF assms(1,2)]) simp

section \<open>The search, group by group\<close>

lemma cal_abs_max_unfold:
  "cal_abs_max lossf obs t =
     (if numel t = 0 then Some (Inl LibraryError)
      else Some (Inr \<lparr>shape = [length (result ((loop_body lossf obs (channels obs t)
                                    (abs_max_values obs t) ^^ 35)
                                   (start_state (abs_max_values obs t))))],
                     data = result ((loop_body lossf obs (channels obs t) (abs_max_values obs t) ^^ 35)
                                      (start_state (abs_max_values obs t)))\<rparr>))"
proof -
  have "search_loop lossf obs (channels obs t) (abs_max_values obs t)
          (start_state (abs_max_values obs t)) =
        Some ((loop_body lossf obs (channels obs t) (abs_max_values obs t) ^^ 35)
                (start_state (abs_max_values obs t)))"
    by (rule search_loop_from_start) (simp add: start_state_def)
  moreover have "cal_abs_max lossf obs t =
     (if numel t = 0 then Some (Inl LibraryError)
      else case search_loop lossf obs (channels obs t) (abs_max_values obs t)
                  (start_state (abs_max_values obs t)) of
             None \<Rightarrow> None
           | Some st \<Rightarrow> Some (Inr \<lparr>shape = [length (result st)], data = result st\<rparr>))"
    unfolding cal_abs_max_def channels_def abs_max_values_def start_state_def Let_def
    by (rule refl)
  ultimately show ?thesis by simp
qed

lemma fits_start_state:
  "fits (length (channels obs t)) (minimum_loss (start_state (abs_max_values obs t)))"
  "fits (length (channels obs t)) (result (start_state (abs_max_values obs t)))"
  using fits_abs_max_values[of obs t] by (simp_all add: start_state_def fits_def)

lemma search_result_length:
  "length (result ((loop_body lossf obs (channels obs t) (abs_max_values obs t) ^^ 35)
                   (start_state (abs_max_values obs t)))) = length (channels obs t)"
proof -
  have "length (result ((loop_body lossf obs (channels obs t) (abs_max_values obs t) ^^ Suc 34)
                   (start_state (abs_max_values obs t)))) = length (channels obs t)"
    using funpow_length[OF fits_abs_max_values refl fits_start_state] by blast
  then show ?thesis by simp
qed

lemma search_result_nth:
  assumes "c < length (channels obs t)"
  shows "result ((loop_body lossf obs (channels obs t) (abs_max_values obs t) ^^ 35)
                   (start_state (abs_max_values obs t))) ! c =
         snd (chan_search lossf (qmin obs) (qmax obs) (channels obs t ! c) (channel_max obs t ! c)
                grid (PInf, channel_max obs t ! c))"
proof -
  let ?N = "length (channels obs t)"
  let ?am = "abs_max_values obs t"
  let ?st = "start_state ?am"
  let ?R = "(loop_body lossf obs (channels obs t) ?am ^^ 35) ?st"
  have one: "broadcast_to ?N (replicate (length ?am) PInf) ! c = PInf"
    using broadcast_to_nth_in_set[of ?N "replicate (length ?am) PInf" c] assms
      fits_start_state(1)[of obs t]
    by (simp add: start_state_def)
  have st: "factor ?st = float64 (3 / 10)"
    "broadcast_to ?N (minimum_loss ?st) ! c = PInf"
    "broadcast_to ?N (result ?st) ! c = channel_max obs t ! c"
    using one by (simp_all add: start_state_def channel_max_def)
  have same: "broadcast_to ?N (result ?R) = result ?R"
    using search_result_length by (rule broadcast_to_same)
  from funpow_nth[OF fits_abs_max_values refl fits_start_state assms, where lossf = lossf and n = 35]
  have "(broadcast_to ?N (minimum_loss ?R) ! c, broadcast_to ?N (result ?R) ! c) =
      chan_search lossf (qmin obs) (qmax obs) (channels obs t ! c) (channel_max obs t ! c) grid
        (PInf, channel_max obs t ! c)"
    by (simp only: st factor_seq_35 channel_max_def)
  then show ?thesis
    unfolding same by (metis snd_conv)
qed

lemma cal_abs_max_channels:
  assumes "0 < numel t"
  shows "\<exists>r. cal_abs_max lossf obs t = Some (Inr r)
           \<and> shape r = [length (channels obs t)]
           \<and> length (data r) = length (channels obs t)
           \<and> (\<forall>c<length (channels obs t).
                 data r ! c =
                 snd (chan_search lossf (qmin obs) (qmax obs) (channels obs t ! c)
                        (channel_max obs t ! c) grid (PInf, channel_max obs t ! c)))"
  using assms search_result_length[where obs = obs and t = t and lossf = lossf]
    search_result_nth[where obs = obs and t = t and lossf = lossf]
  by (simp add: cal_abs_max_unfold)

lemma cal_abs_max_eval:
  assumes "0 < numel t"
  shows "cal_abs_max lossf obs t =
         Some (Inr \<lparr>shape = [length (channels obs t)],
                    data = map2 (\<lambda>g m. snd (chan_search lossf (qmin obs) (qmax obs) g m grid (PInf, m)))
                             (channels obs t) (channel_max obs t)\<rparr>)"
proof -
  have "result ((loop_body lossf obs (channels obs t) (abs_max_values obs t) ^^ 35)
                   (start_state (abs_max_values obs t))) =
        map2 (\<lambda>g m. snd (chan_search lossf (qmin obs) (qmax obs) g m grid (PInf, m)))
          (channels obs t) (channel_max obs t)"
    by (rule nth_equalityI)
      (simp_all add: search_result_length search_result_nth length_channel_max)
  then show ?thesis using assms search_result_length[where obs = obs and t = t and lossf = lossf]
    by (simp add: cal_abs_max_unfold)
qed

section \<open>The search on one group\<close>

lemma grid_range: "list_all (\<lambda>f. 29 / 100 \<le> f \<and> f \<le> 98 / 100 + 1 / 1000) grid"
  by code_simp

lemma chan_step_snd:
  "snd (chan_step lossf lo hi g m f lr) = snd lr \<or>
   snd (chan_step lossf lo hi g m f lr) = scale_by f m"
  by (simp add: chan_step_def)

lemma chan_search_bounds:
  assumes "0 < m" "list_all (\<lambda>f. 0 < f \<and> f \<le> 98 / 100 + 1 / 1000) fs"
    and "0 < snd lr" "snd lr \<le> m"
  shows "0 < snd (chan_search lossf lo hi g m fs lr) \<and> snd (chan_search lossf lo hi g m fs lr) \<le> m"
  using assms
proof (induction fs arbitrary: lr)
  case Nil
  then show ?case by simp
next
  case (Cons f fs)
  have f: "0 < f" "f \<le> 98 / 100 + 1 / 1000" using Cons.prems(2) by simp_all
  have "0 < scale_by f m" "scale_by f m \<le> m"
    using scale_by_bounds[OF f Cons.prems(1)] by blast+
  then have "0 < snd (chan_step lossf lo hi g m f lr) \<and> snd (chan_step lossf lo hi g m f lr) \<le> m"
    using chan_step_snd[of lossf lo hi g m f lr] Cons.prems(3,4) by auto
  then show ?case using Cons.IH[of "chan_step lossf lo hi g m f lr"] Cons.prems(1,2) by simp
qed

lemma chan_search_keeps:
  assumes "set fs \<subseteq> F" "\<exists>f\<in>F. snd lr = scale_by f m"
  shows "\<exists>f\<in>F. snd (chan_search lossf lo hi g m fs lr) = scale_by f m"
  using assms
proof (induction fs arbitrary: lr)
  case Nil
  then show ?case by simp
next
  case (Cons f fs)
  have "\<exists>f'\<in>F. snd (chan_step lossf lo hi g m f lr) = scale_by f' m"
    using chan_step_snd[of lossf lo hi g m f lr] Cons.prems by auto
  then show ?case using Cons.IH[of "chan_step lossf lo hi g m f lr"] Cons.prems(1) by simp
qed

lemma chan_step_first:
  assumes "lossf lo hi (scale_by f m) g = Fin e"
  shows "chan_step lossf lo hi g m f (PInf, r) = (Fin e, scale_by f m)"
  using assms by (simp add: chan_step_def)

lemma chan_search_candidate:
  assumes "fs \<noteq> []" "lossf lo hi (scale_by (hd fs) m) g = Fin e"
  shows "\<exists>f\<in>set fs. snd (chan_search lossf lo hi g m fs (PInf, r)) = scale_by f m"
proof -
  obtain f fs' where fs: "fs = f # fs'" using assms(1) by (cases fs) auto
  have "\<exists>f'\<in>set fs. snd (chan_step lossf lo hi g m f (PInf, r)) = scale_by f' m"
    using chan_step_first[of lossf lo hi f m g e r] assms(2) fs by auto
  then have "\<exists>f'\<in>set fs.
      snd (chan_search lossf lo hi g m fs' (chan_step lossf lo hi g m f (PInf, r))) = scale_by f' m"
    by (rule chan_search_keeps[rotated]) (use fs in auto)
  then show ?thesis using fs by simp
qed

lemma mse_loss_finite: "hi \<noteq> 0 \<Longrightarrow> g \<noteq> [] \<Longrightarrow> \<exists>e. mse_loss lo hi s g = Fin e"
  by (simp add: mse_loss_def)

lemma chan_search_tie:
  assumes "\<forall>f\<in>set fs. lossf lo hi (scale_by f m) g = Fin e"
  shows "chan_search lossf lo hi g m fs (Fin e, r) = (Fin e, r)"
  using assms by (induction fs) (simp_all add: chan_step_def)

lemma chan_search_const:
  assumes "\<forall>f'\<in>set (f # fs). lossf lo hi (scale_by f' m) g = Fin e"
  shows "chan_search lossf lo hi g m (f # fs) (PInf, r) = (Fin e, scale_by f m)"
proof -
  have "chan_step lossf lo hi g m f (PInf, r) = (Fin e, scale_by f m)"
    using assms by (intro chan_step_first) simp
  moreover have "chan_search lossf lo hi g m fs (Fin e, scale_by f m) = (Fin e, scale_by f m)"
    using assms by (intro chan_search_tie) simp
  ultimately show ?thesis by simp
qed

lemma loss_less_NaN: "\<not> loss_less NaN l"
  by (cases l) simp_all

lemma chan_search_NaN:
  assumes "\<forall>f\<in>set fs. lossf lo hi (scale_by f m) g = NaN"
  shows "snd (chan_search lossf lo hi g m fs (l, r)) = r"
  using assms
proof (induction fs arbitrary: l)
  case Nil
  show ?case by simp
next
  case (Cons f fs)
  have "chan_step lossf lo hi g m f (l, r) = (NaN, r)"
    using Cons.prems by (simp add: chan_step_def loss_less_NaN)
  then show ?case using Cons.IH[of NaN] Cons.prems by simp
qed

lemma paddle_round_zero: "paddle_round 0 = 0"
proof -
  have "\<lfloor>1 / 2 :: rat\<rfloor> = 0" by (rule floor_unique) simp_all
  then show ?thesis by (simp add: paddle_round_def)
qed

lemma paddle_round_small:
  assumes "0 \<le> x" "x < 1 / 2"
  shows "paddle_round x = 0"
proof -
  have "\<lfloor>x + 1 / 2\<rfloor> = 0" using assms by (intro floor_unique) simp_all
  then show ?thesis using assms(1) by (simp add: paddle_round_def)
qed

lemma quant_dequant_zero:
  assumes "lo \<le> 0" "0 < hi"
  shows "quant_dequant_var lo hi s 0 = 0"
  using assms by (simp add: quant_dequant_var_def quant_var_def clip_def paddle_round_zero)

lemma quant_dequant_small:
  assumes "lo \<le> 0" "0 < hi" "0 \<le> x" "0 < s" "2 * of_int hi * x < s"
  shows "quant_dequant_var lo hi s x = 0"
proof -
  have "x / s * of_int hi < 1 / 2"
    using assms(2,4,5) by (simp add: field_simps)
  moreover have "0 \<le> x / s * of_int hi" using assms(2,3,4) by simp
  ultimately have "paddle_round (x / s * of_int hi) = 0" by (intro paddle_round_small)
  then show ?thesis using assms(1,2)
    by (simp add: quant_dequant_var_def quant_var_def clip_def)
qed

lemma sum_list_all_zero: "\<forall>x\<in>set g. f x = (0::rat) \<Longrightarrow> sum_list (map f g) = 0"
  by (induction g) simp_all

lemma mse_loss_zero:
  assumes "lo \<le> 0" "0 < hi" "g \<noteq> []" "\<forall>x\<in>set g. x = 0"
  shows "mse_loss lo hi s g = Fin 0"
proof -
  have "\<forall>x\<in>set g. (x - quant_dequant_var lo hi s x)\<^sup>2 = 0"
    using assms(4) quant_dequant_zero[OF assms(1,2)] by auto
  then have "sum_list (map (\<lambda>x. (x - quant_dequant_var lo hi s x)\<^sup>2) g) = 0"
    by (rule sum_list_all_zero)
  then show ?thesis using assms(2,3) by (simp add: mse_loss_def)
qed

lemma mse_loss_small:
  assumes "lo \<le> 0" "0 < hi" "0 \<le> x" "0 < s" "2 * of_int hi * x < s"
  shows "mse_loss lo hi s [x] = Fin (x\<^sup>2)"
  using assms(2) quant_dequant_small[OF assms] by (simp add: mse_loss_def)

lemma mse_loss_NaN: "mse_loss lo 0 s g = NaN"
  by (simp add: mse_loss_def)

lemma chan_search_zero_channel:
  assumes "lo \<le> 0" "0 < hi" "g \<noteq> []" "\<forall>x\<in>set g. x = 0"
  shows "chan_search mse_loss lo hi g m (f # fs) (PInf, r) = (Fin 0, scale_by f m)"
  by (rule chan_search_const) (simp add: mse_loss_zero[OF assms])

section \<open>A group whose entries are all 1\<close>

lemma paddle_round_ge:
  assumes "of_int n \<le> x" "0 \<le> n"
  shows "n \<le> paddle_round x"
proof -
  have "0 \<le> x" using assms by (meson of_int_0_le_iff order_trans)
  moreover have "of_int n \<le> x + 1 / 2" using assms(1) by simp
  ultimately show ?thesis by (simp add: paddle_round_def le_floor_iff)
qed

lemma quant_dequant_one:
  assumes "0 < f" "f \<le> 1" "0 < hi" "lo \<le> hi"
  shows "quant_dequant_var lo hi f 1 = f"
proof -
  have "of_int hi \<le> 1 / f * (of_int hi :: rat)"
    using assms(1-3) by (simp add: field_simps mult_le_cancel_right1)
  then have "hi \<le> paddle_round (1 / f * of_int hi)"
    using assms(3) by (intro paddle_round_ge) simp_all
  then have "quant_var lo hi f 1 = hi"
    using assms(4) by (simp add: quant_var_def clip_def)
  then show ?thesis using assms(3) by (simp add: quant_dequant_var_def)
qed

lemma sum_list_const: "list_all (\<lambda>x. h x = (c::rat)) g \<Longrightarrow> sum_list (map h g) = of_nat (length g) * c"
  by (induction g) (simp_all add: algebra_simps)

lemma mse_loss_ones:
  assumes "g \<noteq> []" "list_all (\<lambda>x. x = 1) g" "0 < f" "f \<le> 1" "0 < hi" "lo \<le> hi"
  shows "mse_loss lo hi f g = Fin ((1 - f)\<^sup>2)"
proof -
  have "list_all (\<lambda>x. (x - quant_dequant_var lo hi f x)\<^sup>2 = (1 - f)\<^sup>2) g"
    using assms(2) quant_dequant_one[OF assms(3-6)] by (auto simp: list_all_iff)
  then have "sum_list (map (\<lambda>x. (x - quant_dequant_var lo hi f x)\<^sup>2) g) =
             of_nat (length g) * (1 - f)\<^sup>2"
    by (rule sum_list_const)
  then show ?thesis using assms(1,5) by (simp add: mse_loss_def)
qed

lemma loss_minimum_less: "loss_less (Fin e) l \<Longrightarrow> loss_minimum (Fin e) l = Fin e"
  by (cases l) auto

lemma chan_search_ones:
  assumes "g \<noteq> []" "list_all (\<lambda>x. x = 1) g" "0 < hi" "lo \<le> hi"
  shows "sorted_wrt (<) (map (\<lambda>f. scale_by f 1) (f # fs)) \<Longrightarrow>
         list_all (\<lambda>s. 0 < s \<and> s < 1) (map (\<lambda>f. scale_by f 1) (f # fs)) \<Longrightarrow>
         loss_less (Fin ((1 - scale_by f 1)\<^sup>2)) l \<Longrightarrow>
         chan_search mse_loss lo hi g 1 (f # fs) (l, r) =
           (Fin ((1 - last (map (\<lambda>f. scale_by f 1) (f # fs)))\<^sup>2),
            last (map (\<lambda>f. scale_by f 1) (f # fs)))"
proof (induction fs arbitrary: f l r)
  case Nil
  then have "mse_loss lo hi (scale_by f 1) g = Fin ((1 - scale_by f 1)\<^sup>2)"
    using assms by (intro mse_loss_ones) simp_all
  then show ?case using Nil.prems(3) by (simp add: chan_step_def loss_minimum_less)
next
  case (Cons f' fs)
  let ?s = "scale_by f 1" and ?s' = "scale_by f' 1"
  have f: "0 < ?s" "?s < 1" "0 < ?s'" "?s' < 1" "?s < ?s'" using Cons.prems(1,2) by simp_all
  have m: "mse_loss lo hi ?s g = Fin ((1 - ?s)\<^sup>2)"
    using assms f by (intro mse_loss_ones) simp_all
  have step: "chan_step mse_loss lo hi g 1 f (l, r) = (Fin ((1 - ?s)\<^sup>2), ?s)"
    using Cons.prems(3) by (simp add: chan_step_def m loss_minimum_less)
  have "(1 - ?s')\<^sup>2 < (1 - ?s)\<^sup>2"
    using f by (intro power_strict_mono) simp_all
  then have less: "loss_less (Fin ((1 - ?s')\<^sup>2)) (Fin ((1 - ?s)\<^sup>2))" by simp
  have "chan_search mse_loss lo hi g 1 (f' # fs) (Fin ((1 - ?s)\<^sup>2), ?s) =
        (Fin ((1 - last (map (\<lambda>f. scale_by f 1) (f' # fs)))\<^sup>2),
         last (map (\<lambda>f. scale_by f 1) (f' # fs)))"
    using Cons.prems(1,2) by (intro Cons.IH less) simp_all
  then show ?case using step by simp
qed

lemma candidates_one: "candidates 1 = grid32"
  by code_simp

lemma grid32_sorted: "sorted_wrt (<) grid32"
proof -
  have "sorted_wrt (<) scale_numerators"
    by (simp add: scale_numerators_def)
  then have "sorted_wrt (\<lambda>a b. (of_int a / 2 ^ 25 :: rat) < of_int b / 2 ^ 25) scale_numerators"
    by (rule sorted_wrt_mono_rel[rotated]) (simp add: divide_strict_right_mono)
  then show ?thesis by (simp add: grid32_def sorted_wrt_map)
qed

lemma grid32_bounds: "list_all (\<lambda>s. 0 < s \<and> s < 1) grid32"
  by (simp add: grid32_def scale_numerators_def)

lemma grid32_last: "last grid32 = 16441672 / 2 ^ 24"
  by (simp add: grid32_def scale_numerators_def)

lemma chan_search_ones_grid:
  assumes "g \<noteq> []" "list_all (\<lambda>x. x = 1) g" "0 < hi" "lo \<le> hi"
  shows "snd (chan_search mse_loss lo hi g 1 grid (PInf, r)) = 16441672 / 2 ^ 24"
proof -
  obtain f fs where fs: "grid = f # fs" using grid_nonempty by (cases grid) auto
  have c: "map (\<lambda>f. scale_by f 1) (f # fs) = grid32"
    using candidates_one unfolding candidates_def fs .
  have "chan_search mse_loss lo hi g 1 (f # fs) (PInf, r) =
          (Fin ((1 - last (map (\<lambda>f. scale_by f 1) (f # fs)))\<^sup>2),
           last (map (\<lambda>f. scale_by f 1) (f # fs)))"
    using grid32_sorted grid32_bounds unfolding c[symmetric]
    by (intro chan_search_ones assms) simp_all
  then show ?thesis unfolding c fs by (simp add: grid32_last)
qed

section \<open>The accessors\<close>

lemma cal_abs_max_returns: "\<exists>r. cal_abs_max lossf obs t = Some r"
  by (simp add: cal_abs_max_unfold)

lemma forward_calibrated: "obs_max obs = Some m \<Longrightarrow> forward lossf obs t = Some (Inr t, obs)"
  by (simp add: forward_def)

lemma forward_keeps:
  "\<exists>r obs1. forward lossf obs t = Some (r, obs1) \<and> obs1\<lparr>obs_max := obs_max obs\<rparr> = obs"
proof (cases "obs_max obs")
  case None
  obtain r where r: "cal_abs_max lossf obs t = Some r" using cal_abs_max_returns by blast
  show ?thesis using None r by (cases r) (simp_all add: forward_def)
next
  case (Some m)
  then show ?thesis by (simp add: forward_def)
qed

lemma forward_all_keeps:
  "\<exists>obs1. forward_all lossf obs ts = Some obs1 \<and> obs1\<lparr>obs_max := obs_max obs\<rparr> = obs"
proof (induction ts arbitrary: obs)
  case Nil
  show ?case by simp
next
  case (Cons t ts)
  obtain r obs1 where f: "forward lossf obs t = Some (r, obs1)" "obs1\<lparr>obs_max := obs_max obs\<rparr> = obs"
    using forward_keeps by blast
  obtain obs2 where g: "forward_all lossf obs1 ts = Some obs2" "obs2\<lparr>obs_max := obs_max obs1\<rparr> = obs1"
    using Cons.IH by blast
  have "obs2\<lparr>obs_max := obs_max obs\<rparr> = obs"
    using f(2) g(2) by (metis observer.update_convs(6) observer.surjective observer.select_convs)
  then show ?case using f g by simp
qed

lemma cal_thresholds_calibrated:
  assumes "obs_max obs = Some m"
  shows "cal_thresholds obs =
         (Inr (), obs\<lparr>obs_scale := Some m, obs_zero_point := Some (zeros_like_tensor m)\<rparr>)"
  using assms by (simp add: cal_thresholds_def zeros_like_def Let_def)

lemma fresh_fields:
  "obs_max (init axis bits) = None" "obs_scale (init axis bits) = None"
  "obs_zero_point (init axis bits) = None" "quant_axis (init axis bits) = axis"
  "quant_bits (init axis bits) = bits"
  by (simp_all add: init_def quant_axis_def)

lemma init_8: "qmin (init axis 8) = - 127" "qmax (init axis 8) = 127"
  by (simp_all add: init_def qmin_qmax_def)

lemma init_1: "qmin (init axis 1) = 0" "qmax (init axis 1) = 0"
  by (simp_all add: init_def qmin_qmax_def)

section \<open>Tensors with a valid channel axis\<close>

lemma expanded_inputs_valid: "valid_axis obs t \<Longrightarrow> expanded_inputs obs t = t"
proof -
  assume v: "valid_axis obs t"
  then have "0 < length (shape t)" by (auto simp: valid_axis_def)
  moreover have "length (reduce_axis obs t) = length (shape t) - 1"
    using v by (simp add: length_reduce_axis)
  ultimately have "length (reduce_axis obs t) \<noteq> length (shape t)" by linarith
  then show ?thesis by (simp add: expanded_inputs_def)
qed

lemma length_channels_valid:
  assumes "valid_axis obs t"
  shows "length (channels obs t) =
         (if 2 \<le> length (shape t) then shape t ! nat (quant_axis obs) else 1)"
  using assms by (simp add: length_channels)

lemma channel_max_valid:
  assumes "valid_axis obs t"
  shows "channel_max obs t =
         map (\<lambda>m. if float_equal m 0 then eps else m) (map abs_max_of (channels obs t))"
proof -
  have a: "abs_max_values obs t =
           map (\<lambda>m. if float_equal m 0 then eps else m) (map abs_max_of (channels obs t))"
    by (simp add: abs_max_values_def channels_def expanded_inputs_valid[OF assms])
  then have "length (abs_max_values obs t) = length (channels obs t)" by simp
  then have "channel_max obs t = abs_max_values obs t"
    unfolding channel_max_def by (rule broadcast_to_same)
  then show ?thesis using a by simp
qed

lemma channel_max_valid_nth:
  assumes "valid_axis obs t" "c < length (channels obs t)"
  shows "channel_max obs t ! c =
     (if float_equal (abs_max_of (channels obs t ! c)) 0 then eps
      else abs_max_of (channels obs t ! c))"
  using assms(2) unfolding channel_max_valid[OF assms(1)] by simp

lemma scale_by_less:
  assumes "0 < f" "f \<le> 98 / 100 + 1 / 1000" "0 < m"
  shows "scale_by f m < m"
proof -
  have f32: "0 < float32 f" using assms(1) by (rule float32_bounds)
  have "float32 f \<le> f + f / 2 ^ 24" using assms(1) by (rule float32_bounds)
  then have fu: "float32 f \<le> 99 / 100" using assms(2) by simp
  have x: "0 < float32 f * m" using f32 assms(3) by simp
  have "scale_by f m \<le> float32 f * m + float32 f * m / 2 ^ 24"
    unfolding scale_by_def using x by (rule float32_bounds)
  also have "\<dots> = float32 f * (m * (1 + 1 / 2 ^ 24))" by (simp add: algebra_simps)
  also have "\<dots> \<le> 99 / 100 * (m * (1 + 1 / 2 ^ 24))"
    using fu assms(3) by (intro mult_right_mono) simp_all
  also have "\<dots> < m" using assms(3) by simp
  finally show ?thesis .
qed

lemma candidates_less:
  assumes "0 < m"
  shows "m \<notin> set (candidates m)"
proof
  assume "m \<in> set (candidates m)"
  then obtain f where f: "f \<in> set grid" "m = scale_by f m"
    by (auto simp: candidates_def)
  have "0 < f" using f(1) grid_bounds by (auto simp: list_all_iff)
  moreover have "f \<le> 98 / 100 + 1 / 1000" using f(1) grid_range by (auto simp: list_all_iff)
  ultimately have "scale_by f m < m" using assms by (rule scale_by_less)
  then show False using f(2) by simp
qed

lemma first_round_nth:
  assumes "c < length (channels obs t)"
    and "lossf (qmin obs) (qmax obs) (scale_by (float64 (3 / 10)) (channel_max obs t ! c))
           (channels obs t ! c) = Fin e"
  shows "result (loop_body lossf obs (channels obs t) (abs_max_values obs t)
                   (start_state (abs_max_values obs t))) ! c =
         scale_by (float64 (3 / 10)) (channel_max obs t ! c)"
proof -
  let ?N = "length (channels obs t)"
  let ?am = "abs_max_values obs t"
  let ?st = "start_state ?am"
  have one: "broadcast_to ?N (replicate (length ?am) PInf) ! c = PInf"
    using broadcast_to_nth_in_set[of ?N "replicate (length ?am) PInf" c] assms(1)
      fits_start_state(1)[of obs t]
    by (simp add: start_state_def)
  have "result (loop_body lossf obs (channels obs t) ?am ?st) ! c =
        snd (chan_step lossf (qmin obs) (qmax obs) (channels obs t ! c) (broadcast_to ?N ?am ! c)
               (factor ?st) (broadcast_to ?N (minimum_loss ?st) ! c, broadcast_to ?N (result ?st) ! c))"
    using loop_body_nth[OF fits_abs_max_values refl fits_start_state assms(1), where lossf = lossf]
    by (metis snd_conv)
  also have "\<dots> = snd (chan_step lossf (qmin obs) (qmax obs) (channels obs t ! c)
                        (channel_max obs t ! c) (float64 (3 / 10)) (PInf, channel_max obs t ! c))"
    using one by (simp add: start_state_def channel_max_def)
  also have "\<dots> = scale_by (float64 (3 / 10)) (channel_max obs t ! c)"
    using chan_step_first[where lossf = lossf and lo = "qmin obs" and hi = "qmax obs"
        and f = "float64 (3 / 10)" and m = "channel_max obs t ! c" and g = "channels obs t ! c"
        and e = e and r = "channel_max obs t ! c"] assms(2)
    by simp
  finally show ?thesis .
qed

text \<open>The result of the search on a tensor with one group, and with two.\<close>

lemma cal_abs_max_single:
  assumes "0 < numel t" "channels obs t = [g]" "channel_max obs t = [m]"
    and "snd (chan_search lossf (qmin obs) (qmax obs) g m grid (PInf, m)) = v"
  shows "cal_abs_max lossf obs t = Some (Inr \<lparr>shape = [1], data = [v]\<rparr>)"
  using cal_abs_max_eval[OF assms(1), of lossf obs] assms(2-4) by simp

lemma cal_abs_max_pair:
  assumes "0 < numel t" "channels obs t = [g1, g2]" "channel_max obs t = [m1, m2]"
    and "snd (chan_search lossf (qmin obs) (qmax obs) g1 m1 grid (PInf, m1)) = v1"
    and "snd (chan_search lossf (qmin obs) (qmax obs) g2 m2 grid (PInf, m2)) = v2"
  shows "cal_abs_max lossf obs t = Some (Inr \<lparr>shape = [2], data = [v1, v2]\<rparr>)"
  using cal_abs_max_eval[OF assms(1), of lossf obs] assms(2-5) by simp

section \<open>Claims\<close>

text \<open>
  The theorems that hold for every input hold for every function \<open>lossf\<close> that computes
  the quantization error of a group, the binary32 computation of the library among
  them. Where a theorem or an example needs the value of the error, it is stated for
  \<open>mse_loss\<close>, the error in exact arithmetic, on inputs where binary32 arithmetic gives the
  same comparisons.
\<close>

text \<open>
  C1. The specification says that the search evaluates exactly the 36 candidate factors
  0.30, 0.32, ..., 1.00, the last one included. The loop does not: started as
  \<^verbatim>\<open>_cal_abs_max\<close> starts it, with \<^verbatim>\<open>factor = 0.3\<close>, it runs exactly 35 rounds.
  The factors of these rounds are the binary64 numbers of \<open>grid\<close>, all below 1 and the
  last one \<open>0.98 + 5 * 2 ^ - 53\<close>; the sum that follows is \<open>1 + 2 ^ - 51\<close>, the test
  \<^verbatim>\<open>factor <= 1.0\<close> fails, and the candidate 1.00 is never evaluated.
\<close>

theorem search_loop_runs_35_rounds:
  "search_loop lossf obs chans am \<lparr>factor = float64 (3 / 10), minimum_loss = ml, result = r\<rparr> =
     Some ((loop_body lossf obs chans am ^^ 35)
             \<lparr>factor = float64 (3 / 10), minimum_loss = ml, result = r\<rparr>)
   \<and> map (\<lambda>i. factor ((loop_body lossf obs chans am ^^ i)
                         \<lparr>factor = float64 (3 / 10), minimum_loss = ml, result = r\<rparr>))
         [0..<35] = grid
   \<and> length grid = 35
   \<and> list_all (\<lambda>f. f < 1) grid
   \<and> last grid = 17654110539292354 / 2 ^ 54
   \<and> factor ((loop_body lossf obs chans am ^^ 35)
                \<lparr>factor = float64 (3 / 10), minimum_loss = ml, result = r\<rparr>)
       = 18014398509481992 / 2 ^ 54
   \<and> (1 :: rat) < 18014398509481992 / 2 ^ 54"
proof -
  let ?st = "\<lparr>factor = float64 (3 / 10), minimum_loss = ml, result = r\<rparr>"
  have a: "search_loop lossf obs chans am ?st = Some ((loop_body lossf obs chans am ^^ 35) ?st)"
    by (rule search_loop_from_start) simp
  have b: "map (\<lambda>i. factor ((loop_body lossf obs chans am ^^ i) ?st)) [0..<35] = grid"
    using factor_seq_35 by (simp only: factor_funpow factor_seq_map search_state.simps)
  have c: "list_all (\<lambda>f. f < 1) grid"
    using grid_bounds by (auto simp: list_all_iff)
  have d: "last grid = 17654110539292354 / 2 ^ 54"
    by (simp add: grid_def factor_numerators_def)
  have e: "factor ((loop_body lossf obs chans am ^^ 35) ?st) = 18014398509481992 / 2 ^ 54"
    using factor_after_35 by (simp only: factor_funpow search_state.simps)
  have f: "(1 :: rat) < 18014398509481992 / 2 ^ 54" by simp
  from a b c d e f grid_length show ?thesis by blast
qed

text \<open>
  C2, as amended. The specification says that \<^verbatim>\<open>max_value()\<close> and \<^verbatim>\<open>scales()\<close> fail
  with \<open>NotCalibratedError\<close> on an observer that has seen no \<^verbatim>\<open>forward\<close> call. The
  source has no such error. On a fresh observer \<^verbatim>\<open>max_value()\<close> returns the unset
  field, \<^verbatim>\<open>None\<close>, without failing. \<^verbatim>\<open>scales()\<close>, \<^verbatim>\<open>zero_points()\<close> and
  \<^verbatim>\<open>cal_thresholds()\<close> do fail, inside the tensor library, when \<^verbatim>\<open>zeros_like\<close> is
  given the unset scale; they return no value and leave the observer as it was.
\<close>

theorem uncalibrated_accessors:
  "max_value (init axis bits) = Inr None
   \<and> scales (init axis bits) = (Inl LibraryError, init axis bits)
   \<and> zero_points (init axis bits) = (Inl LibraryError, init axis bits)
   \<and> cal_thresholds (init axis bits) = (Inl LibraryError, init axis bits)"
  by (simp add: max_value_def scales_def zero_points_def cal_thresholds_def zeros_like_def
      init_def)

text \<open>
  C2, as stated, fails on the fresh observer with channel axis 0 and 8 bits:
  \<^verbatim>\<open>max_value()\<close> returns \<^verbatim>\<open>None\<close>, and the error of \<^verbatim>\<open>scales()\<close> is not
  \<open>NotCalibratedError\<close>.
\<close>

theorem uncalibrated_not_calibrated_error:
  "max_value (init 0 8) = Inr None
   \<and> max_value (init 0 8) \<noteq> Inl NotCalibratedError
   \<and> fst (scales (init 0 8)) = Inl LibraryError
   \<and> fst (scales (init 0 8)) \<noteq> Inl NotCalibratedError"
  by (simp add: max_value_def scales_def cal_thresholds_def zeros_like_def init_def)

text \<open>
  C3. The specification says that the scale the search returns reconstructs a channel
  no worse than the raw abs-max of the channel does. Since the loop never evaluates the
  factor 1.00 (see C1), the code breaks this on the tensor \<open>[[1.0]]\<close> with channel axis 0
  and 8 bits: the channel is \<open>[1]\<close>, its abs-max is 1 and reconstructs it with error 0;
  the search returns the last candidate, the binary32 number \<open>16441672 / 2 ^ 24\<close> (about
  0.98), whose error is positive.
\<close>

theorem search_result_worse_than_abs_max:
  "cal_abs_max mse_loss (init 0 8) \<lparr>shape = [1, 1], data = [1]\<rparr> =
     Some (Inr \<lparr>shape = [1], data = [16441672 / 2 ^ 24]\<rparr>)
   \<and> channels (init 0 8) \<lparr>shape = [1, 1], data = [1]\<rparr> = [[1]]
   \<and> abs_max_of [1] = 1
   \<and> scale_by (17654110539292354 / 2 ^ 54) 1 = 16441672 / 2 ^ 24
   \<and> mse_loss (qmin (init 0 8)) (qmax (init 0 8)) 1 [1] = Fin 0
   \<and> mse_loss (qmin (init 0 8)) (qmax (init 0 8)) (16441672 / 2 ^ 24) [1] =
       Fin ((1 - 16441672 / 2 ^ 24)\<^sup>2)
   \<and> loss_less (mse_loss (qmin (init 0 8)) (qmax (init 0 8)) 1 [1])
        (mse_loss (qmin (init 0 8)) (qmax (init 0 8)) (16441672 / 2 ^ 24) [1])"
proof -
  let ?t = "\<lparr>shape = [1, 1], data = [1]\<rparr>"
  let ?o = "init 0 8 :: observer"
  have ch: "channels ?o ?t = [[1]]"
    by code_simp
  have cm: "channel_max ?o ?t = [1]"
    by code_simp
  have cs: "snd (chan_search mse_loss (qmin ?o) (qmax ?o) [1] 1 grid (PInf, 1)) = 16441672 / 2 ^ 24"
    by (rule chan_search_ones_grid) (simp_all add: init_8)
  have ne: "0 < numel ?t" by (simp add: numel_def)
  have a: "cal_abs_max mse_loss ?o ?t = Some (Inr \<lparr>shape = [1], data = [16441672 / 2 ^ 24]\<rparr>)"
    using cal_abs_max_eval[OF ne, of mse_loss ?o] unfolding ch cm by (simp add: cs)
  have m1: "mse_loss (qmin ?o) (qmax ?o) 1 [1] = Fin 0"
    using mse_loss_ones[of "[1]" 1 "qmax ?o" "qmin ?o"] by (simp add: init_8)
  have m2: "mse_loss (qmin ?o) (qmax ?o) (16441672 / 2 ^ 24) [1] =
       Fin ((1 - 16441672 / 2 ^ 24)\<^sup>2)"
    using mse_loss_ones[of "[1]" "16441672 / 2 ^ 24" "qmax ?o" "qmin ?o"]
    by (simp add: init_8)
  have m3: "loss_less (mse_loss (qmin ?o) (qmax ?o) 1 [1])
        (mse_loss (qmin ?o) (qmax ?o) (16441672 / 2 ^ 24) [1])"
    unfolding m1 m2 by simp
  have m4: "abs_max_of [1] = 1" by simp
  from a ch m1 m2 m3 m4 float32_literals(5) show ?thesis by blast
qed

text \<open>
  C4, as amended. A channel whose entries are all zero, on a tensor with a valid channel
  axis: its abs-max is replaced by \<^verbatim>\<open>np.float32(1e-8)\<close>. When every candidate has error 0
  on the channel, the search returns the first candidate for it: the first round
  replaces the initial entry, and the strict comparison keeps the later candidates out.
  The first candidate is the binary32 product of the binary32 values of 0.3 and
  \<^verbatim>\<open>1e-8\<close>, the number \<open>13510799 / 2 ^ 52\<close>, and not the exact product. The error of
  every candidate is 0 on such a channel when the quantization range contains 0 and has
  a positive upper end (two bits and more): every intermediate value of lines 77 to 82
  is then 0, in binary32 as in exact arithmetic.
\<close>

theorem zero_channel_first_candidate:
  assumes "nonempty_tensor t" "valid_axis obs t" "c < length (channels obs t)"
    and "list_all (\<lambda>x. x = 0) (channels obs t ! c)"
    and "list_all (\<lambda>f. lossf (qmin obs) (qmax obs) (scale_by f eps) (channels obs t ! c) = Fin 0)
           grid"
  shows "\<exists>r. cal_abs_max lossf obs t = Some (Inr r)
           \<and> abs_max_of (channels obs t ! c) = 0
           \<and> channel_max obs t ! c = eps
           \<and> eps = float32 (float64 (1 / 100000000))
           \<and> hd grid = float64 (3 / 10)
           \<and> data r ! c = scale_by (float64 (3 / 10)) eps
           \<and> scale_by (float64 (3 / 10)) eps = 13510799 / 2 ^ 52"
proof -
  have ne: "0 < numel t" using assms(1) by (simp add: nonempty_tensor_def)
  obtain r where r: "cal_abs_max lossf obs t = Some (Inr r)"
    and rc: "data r ! c = snd (chan_search lossf (qmin obs) (qmax obs) (channels obs t ! c)
               (channel_max obs t ! c) grid (PInf, channel_max obs t ! c))"
    using cal_abs_max_channels[OF ne, of lossf obs] assms(3) by blast
  have z: "\<forall>x\<in>set (channels obs t ! c). x = 0" using assms(4) by (simp add: list_all_iff)
  have a0: "abs_max_of (channels obs t ! c) = 0" using z by (rule abs_max_of_zero)
  have am: "channel_max obs t ! c = eps"
    using channel_max_valid_nth[OF assms(2,3)] a0 float_equal_examples(1) by simp
  have grid: "grid = float64 (3 / 10) # tl grid"
    using grid_nonempty grid_hd by (metis list.collapse)
  have "\<forall>f\<in>set (float64 (3 / 10) # tl grid).
          lossf (qmin obs) (qmax obs) (scale_by f eps) (channels obs t ! c) = Fin 0"
    using assms(5) grid by (simp add: list_all_iff)
  then have "chan_search lossf (qmin obs) (qmax obs) (channels obs t ! c) eps
          (float64 (3 / 10) # tl grid) (PInf, eps) = (Fin 0, scale_by (float64 (3 / 10)) eps)"
    by (rule chan_search_const)
  then have "data r ! c = scale_by (float64 (3 / 10)) eps"
    using rc am grid by (metis snd_conv)
  then show ?thesis using r a0 am grid_hd float32_literals(4) by (simp add: eps_def)
qed

theorem zero_channel_first_candidate_witness:
  "nonempty_tensor \<lparr>shape = [2, 2], data = [0, 0, 3, 4]\<rparr>
   \<and> valid_axis (init 0 8) \<lparr>shape = [2, 2], data = [0, 0, 3, 4]\<rparr>
   \<and> 0 < length (channels (init 0 8) \<lparr>shape = [2, 2], data = [0, 0, 3, 4]\<rparr>)
   \<and> list_all (\<lambda>x. x = 0) (channels (init 0 8) \<lparr>shape = [2, 2], data = [0, 0, 3, 4]\<rparr> ! 0)
   \<and> list_all (\<lambda>f. mse_loss (qmin (init 0 8)) (qmax (init 0 8)) (scale_by f eps)
                      (channels (init 0 8) \<lparr>shape = [2, 2], data = [0, 0, 3, 4]\<rparr> ! 0) = Fin 0)
        grid
   \<and> (\<exists>r. cal_abs_max mse_loss (init 0 8) \<lparr>shape = [2, 2], data = [0, 0, 3, 4]\<rparr> = Some (Inr r)
          \<and> data r ! 0 = 13510799 / 2 ^ 52)"
proof -
  let ?t = "\<lparr>shape = [2, 2], data = [0, 0, 3, 4]\<rparr>"
  let ?o = "init 0 8 :: observer"
  have h1: "nonempty_tensor ?t" by (simp add: nonempty_tensor_def wf_tensor_def numel_def)
  have h2: "valid_axis ?o ?t" by (simp add: valid_axis_def fresh_fields)
  have ch: "channels ?o ?t = [[0, 0], [3, 4]]" by code_simp
  have h3: "0 < length (channels ?o ?t)" unfolding ch by simp
  have h4: "list_all (\<lambda>x. x = 0) (channels ?o ?t ! 0)" unfolding ch by simp
  have "mse_loss (qmin ?o) (qmax ?o) s (channels ?o ?t ! 0) = Fin 0" for s
    unfolding ch by (rule mse_loss_zero) (simp_all add: init_8)
  then have h5: "list_all (\<lambda>f. mse_loss (qmin ?o) (qmax ?o) (scale_by f eps)
                      (channels ?o ?t ! 0) = Fin 0) grid"
    by (simp add: list_all_iff)
  from zero_channel_first_candidate[where lossf = mse_loss, OF h1 h2 h3 h4 h5] h1 h2 h3 h4 h5
  show ?thesis by (metis (no_types, lifting))
qed

text \<open>
  C4, as stated, fails on the tensor \<open>[[0, 0], [3, 4]]\<close> with channel axis 0 and one bit.
  The quantization range is then \<open>[0, 0]\<close>, line 80 divides zero by zero, the error of
  every candidate is NaN, and no comparison with NaN succeeds: the zero channel keeps
  its initial entry, \<^verbatim>\<open>np.float32(1e-8)\<close> itself, which is not the first candidate. At
  every bit width the first candidate differs from the exact product of 0.3 and
  \<^verbatim>\<open>np.float32(1e-8)\<close>.
\<close>

theorem zero_channel_one_bit:
  "cal_abs_max mse_loss (init 0 1) \<lparr>shape = [2, 2], data = [0, 0, 3, 4]\<rparr> =
     Some (Inr \<lparr>shape = [2], data = [eps, 4]\<rparr>)
   \<and> channels (init 0 1) \<lparr>shape = [2, 2], data = [0, 0, 3, 4]\<rparr> = [[0, 0], [3, 4]]
   \<and> qmax (init 0 1) = 0
   \<and> eps = 11258999 / 2 ^ 50
   \<and> scale_by (float64 (3 / 10)) eps = 13510799 / 2 ^ 52
   \<and> eps \<noteq> scale_by (float64 (3 / 10)) eps
   \<and> scale_by (float64 (3 / 10)) eps \<noteq> float64 (3 / 10) * eps"
proof -
  let ?t = "\<lparr>shape = [2, 2], data = [0, 0, 3, 4]\<rparr>"
  let ?o = "init 0 1 :: observer"
  have ch: "channels ?o ?t = [[0, 0], [3, 4]]" by code_simp
  have cm: "channel_max ?o ?t = [eps, 4]" by code_simp
  have ne: "0 < numel ?t" by (simp add: numel_def)
  have q: "qmin ?o = 0" "qmax ?o = 0" by (rule init_1)+
  have cs: "snd (chan_search mse_loss lo 0 g m grid (PInf, m)) = m" for lo g m
    by (rule chan_search_NaN) (simp add: mse_loss_NaN)
  have a: "cal_abs_max mse_loss ?o ?t = Some (Inr \<lparr>shape = [2], data = [eps, 4]\<rparr>)"
    using cal_abs_max_eval[OF ne, of mse_loss ?o] unfolding ch cm q by (simp add: cs)
  have v: "scale_by (float64 (3 / 10)) eps = 13510799 / 2 ^ 52" by (rule float32_literals(4))
  have e: "eps = 11258999 / 2 ^ 50" by (rule float32_literals(1))
  have n1: "(11258999 / 2 ^ 50 :: rat) \<noteq> 13510799 / 2 ^ 52" by simp
  have n2: "(13510799 / 2 ^ 52 :: rat) \<noteq> 5404319552844595 / 2 ^ 54 * (11258999 / 2 ^ 50)"
    by simp
  have b: "eps \<noteq> scale_by (float64 (3 / 10)) eps"
    using n1 unfolding v unfolding e .
  have c: "scale_by (float64 (3 / 10)) eps \<noteq> float64 (3 / 10) * eps"
    using n2 unfolding v unfolding e float64_literals(1) .
  from a ch b c float32_literals(1,4) init_1(2)[of 0] show ?thesis by blast
qed

text \<open>
  C5. After calibration, \<^verbatim>\<open>cal_thresholds\<close> stores the cached per-channel max as the
  scale and zeros of the same shape as the zero point. \<^verbatim>\<open>scales()\<close> returns the value
  of \<^verbatim>\<open>max_value()\<close>, whether \<^verbatim>\<open>cal_thresholds\<close> ran before or not, and repeating
  \<^verbatim>\<open>cal_thresholds\<close>, \<^verbatim>\<open>scales\<close> and \<^verbatim>\<open>zero_points\<close> changes neither the observer
  nor the values returned.
\<close>

theorem cal_thresholds_scale_is_max:
  assumes "obs_max obs = Some m" "obs_scale obs = None" "obs_zero_point obs = None"
  shows "(let obs1 = obs\<lparr>obs_scale := Some m, obs_zero_point := Some (zeros_like_tensor m)\<rparr>
          in cal_thresholds obs = (Inr (), obs1)
           \<and> scales obs = (Inr (Some m), obs1)
           \<and> zero_points obs = (Inr (Some (zeros_like_tensor m)), obs1)
           \<and> cal_thresholds obs1 = (Inr (), obs1)
           \<and> scales obs1 = (Inr (Some m), obs1)
           \<and> zero_points obs1 = (Inr (Some (zeros_like_tensor m)), obs1)
           \<and> max_value obs1 = Inr (Some m))
         \<and> shape (zeros_like_tensor m) = shape m
         \<and> length (data (zeros_like_tensor m)) = length (data m)
         \<and> list_all (\<lambda>z. z = 0) (data (zeros_like_tensor m))"
  using assms
  by (simp add: Let_def cal_thresholds_def scales_def zero_points_def zeros_like_def max_value_def
      zeros_like_tensor_def list_all_iff)

theorem cal_thresholds_scale_is_max_witness:
  "obs_max ((init 0 8)\<lparr>obs_max := Some \<lparr>shape = [2], data = [3, 4]\<rparr>\<rparr>) = Some \<lparr>shape = [2], data = [3, 4]\<rparr>
   \<and> obs_scale ((init 0 8)\<lparr>obs_max := Some \<lparr>shape = [2], data = [3, 4]\<rparr>\<rparr>) = None
   \<and> obs_zero_point ((init 0 8)\<lparr>obs_max := Some \<lparr>shape = [2], data = [3, 4]\<rparr>\<rparr>) = None
   \<and> fst (scales ((init 0 8)\<lparr>obs_max := Some \<lparr>shape = [2], data = [3, 4]\<rparr>\<rparr>)) =
       Inr (Some \<lparr>shape = [2], data = [3, 4]\<rparr>)
   \<and> fst (zero_points ((init 0 8)\<lparr>obs_max := Some \<lparr>shape = [2], data = [3, 4]\<rparr>\<rparr>)) =
       Inr (Some \<lparr>shape = [2], data = [0, 0]\<rparr>)"
proof -
  let ?m = "\<lparr>shape = [2], data = [3, 4]\<rparr>"
  let ?o = "(init 0 8)\<lparr>obs_max := Some ?m\<rparr>"
  have h1: "obs_max ?o = Some ?m" by simp
  have h2: "obs_scale ?o = None" by (simp add: fresh_fields)
  have h3: "obs_zero_point ?o = None" by (simp add: fresh_fields)
  have z: "zeros_like_tensor ?m = \<lparr>shape = [2], data = [0, 0]\<rparr>"
    by (simp add: zeros_like_tensor_def)
  from cal_thresholds_scale_is_max[OF h1 h2 h3] h1 h2 h3
  show ?thesis unfolding z Let_def by simp
qed

text \<open>
  C6. The first \<^verbatim>\<open>forward\<close> call on a non-empty tensor stores the result of the search
  as the per-channel max. Every later call, with any tensor \<open>t2\<close>, returns its input and
  leaves the observer as it is, so \<^verbatim>\<open>max_value()\<close> still returns what the first call
  computed.
\<close>

theorem forward_caches_first_result:
  assumes "nonempty_tensor t1" "obs_max obs = None"
  shows "\<exists>m. cal_abs_max lossf obs t1 = Some (Inr m)
           \<and> forward lossf obs t1 = Some (Inr t1, obs\<lparr>obs_max := Some m\<rparr>)
           \<and> forward lossf (obs\<lparr>obs_max := Some m\<rparr>) t2 = Some (Inr t2, obs\<lparr>obs_max := Some m\<rparr>)
           \<and> max_value (obs\<lparr>obs_max := Some m\<rparr>) = Inr (Some m)"
proof -
  have "0 < numel t1" using assms(1) by (simp add: nonempty_tensor_def)
  then obtain m where m: "cal_abs_max lossf obs t1 = Some (Inr m)"
    using cal_abs_max_channels[of t1 lossf obs] by blast
  have "forward lossf obs t1 = Some (Inr t1, obs\<lparr>obs_max := Some m\<rparr>)"
    using assms(2) m by (simp add: forward_def)
  moreover have "forward lossf (obs\<lparr>obs_max := Some m\<rparr>) t2 = Some (Inr t2, obs\<lparr>obs_max := Some m\<rparr>)"
    by (rule forward_calibrated) simp
  ultimately show ?thesis using m by (simp add: max_value_def)
qed

theorem forward_caches_first_result_witness:
  "nonempty_tensor \<lparr>shape = [2, 2], data = [1, 2, 3, 4]\<rparr>
   \<and> obs_max (init 0 8) = None
   \<and> (\<exists>m. cal_abs_max mse_loss (init 0 8) \<lparr>shape = [2, 2], data = [1, 2, 3, 4]\<rparr> = Some (Inr m)
          \<and> forward mse_loss (init 0 8) \<lparr>shape = [2, 2], data = [1, 2, 3, 4]\<rparr> =
              Some (Inr \<lparr>shape = [2, 2], data = [1, 2, 3, 4]\<rparr>, (init 0 8)\<lparr>obs_max := Some m\<rparr>)
          \<and> forward mse_loss ((init 0 8)\<lparr>obs_max := Some m\<rparr>) \<lparr>shape = [1], data = [50]\<rparr> =
              Some (Inr \<lparr>shape = [1], data = [50]\<rparr>, (init 0 8)\<lparr>obs_max := Some m\<rparr>)
          \<and> max_value ((init 0 8)\<lparr>obs_max := Some m\<rparr>) = Inr (Some m))"
proof -
  have h1: "nonempty_tensor \<lparr>shape = [2, 2], data = [1, 2, 3, 4]\<rparr>"
    by (simp add: nonempty_tensor_def wf_tensor_def numel_def)
  have h2: "obs_max (init 0 8) = None" by (simp add: fresh_fields)
  from forward_caches_first_result[OF h1 h2, of mse_loss "\<lparr>shape = [1], data = [50]\<rparr>"] h1 h2
  show ?thesis by blast
qed

text \<open>
  C7, as amended. The specification says that the search fails with
  \<open>InvalidAxisError\<close> when the channel axis is out of range. The source has no such
  check: an axis that names no dimension is simply not excluded from the reduction.
  The maximum is then taken over the whole tensor, and the error of each candidate is
  averaged over all dimensions but the last, so the search returns one scale for each
  index of the last dimension. What holds is the second half of the claim, for every
  axis: on a non-empty tensor the search ends and returns a well-formed one-dimensional
  tensor, never an error. It has one entry per index of the channel axis when the axis
  is valid and the tensor has two dimensions or more, one entry per index of the last
  dimension when the axis is not valid, and one entry otherwise.
\<close>

theorem cal_abs_max_total:
  assumes "nonempty_tensor t"
  shows "\<exists>r. cal_abs_max lossf obs t = Some (Inr r)
           \<and> cal_abs_max lossf obs t \<noteq> Some (Inl InvalidAxisError)
           \<and> wf_tensor r
           \<and> shape r =
               (if valid_axis obs t \<and> 2 \<le> length (shape t) then [shape t ! nat (quant_axis obs)]
                else if \<not> valid_axis obs t \<and> shape t \<noteq> [] then [last (shape t)]
                else [1])"
proof -
  have "0 < numel t" using assms by (simp add: nonempty_tensor_def)
  then obtain r where r: "cal_abs_max lossf obs t = Some (Inr r)"
    "shape r = [length (channels obs t)]"
    "length (data r) = length (channels obs t)"
    using cal_abs_max_channels[of t lossf obs] by blast
  have "wf_tensor r"
    using r(2,3) by (simp add: wf_tensor_def numel_def)
  then show ?thesis using r by (simp add: length_channels)
qed

theorem cal_abs_max_total_witness:
  "nonempty_tensor \<lparr>shape = [2, 3], data = [1, 2, 3, 4, 5, 6]\<rparr>
   \<and> (\<exists>r. cal_abs_max mse_loss (init 7 8) \<lparr>shape = [2, 3], data = [1, 2, 3, 4, 5, 6]\<rparr> = Some (Inr r)
          \<and> shape r = [3] \<and> wf_tensor r)
   \<and> (\<exists>r. cal_abs_max mse_loss (init 0 8) \<lparr>shape = [2, 3], data = [1, 2, 3, 4, 5, 6]\<rparr> = Some (Inr r)
          \<and> shape r = [2] \<and> wf_tensor r)"
proof -
  let ?t = "\<lparr>shape = [2, 3], data = [1, 2, 3, 4, 5, 6]\<rparr>"
  have h1: "nonempty_tensor ?t"
    by (simp add: nonempty_tensor_def wf_tensor_def numel_def)
  have v7: "\<not> valid_axis (init 7 8) ?t" by (simp add: valid_axis_def fresh_fields)
  have v0: "valid_axis (init 0 8) ?t" by (simp add: valid_axis_def fresh_fields)
  from cal_abs_max_total[OF h1, of mse_loss "init 7 8"]
    cal_abs_max_total[OF h1, of mse_loss "init 0 8"] h1 v7 v0
  show ?thesis by (auto simp: fresh_fields)
qed

text \<open>
  C7, as stated, fails on the tensor \<open>[[1, 1], [1, 1]]\<close> with channel axis 2, which
  names no dimension of it: the search does not fail, it returns two scales, one for
  each index of the last dimension.
\<close>

theorem invalid_axis_returns_scale:
  "\<not> valid_axis (init 2 8) \<lparr>shape = [2, 2], data = [1, 1, 1, 1]\<rparr>
   \<and> cal_abs_max mse_loss (init 2 8) \<lparr>shape = [2, 2], data = [1, 1, 1, 1]\<rparr> =
       Some (Inr \<lparr>shape = [2], data = [16441672 / 2 ^ 24, 16441672 / 2 ^ 24]\<rparr>)
   \<and> cal_abs_max mse_loss (init 2 8) \<lparr>shape = [2, 2], data = [1, 1, 1, 1]\<rparr> \<noteq>
       Some (Inl InvalidAxisError)"
proof -
  let ?t = "\<lparr>shape = [2, 2], data = [1, 1, 1, 1]\<rparr>"
  let ?o = "init 2 8 :: observer"
  have v: "\<not> valid_axis ?o ?t" by (simp add: valid_axis_def fresh_fields)
  have ch: "channels ?o ?t = [[1, 1], [1, 1]]" by code_simp
  have cm: "channel_max ?o ?t = [1, 1]" by code_simp
  have cs: "snd (chan_search mse_loss (qmin ?o) (qmax ?o) [1, 1] 1 grid (PInf, 1)) =
            16441672 / 2 ^ 24"
    by (rule chan_search_ones_grid) (simp_all add: init_8)
  have ne: "0 < numel ?t" by (simp add: numel_def)
  have a: "cal_abs_max mse_loss ?o ?t =
           Some (Inr \<lparr>shape = [2], data = [16441672 / 2 ^ 24, 16441672 / 2 ^ 24]\<rparr>)"
    using cal_abs_max_eval[OF ne, of mse_loss ?o] unfolding ch cm by (simp add: cs)
  from v a show ?thesis by simp
qed

text \<open>
  C8, as amended. A fresh observer, calibrated by one \<^verbatim>\<open>forward\<close> call on a non-empty
  tensor with a valid channel axis: \<^verbatim>\<open>scales()\<close> and \<^verbatim>\<open>zero_points()\<close> return
  sequences with one entry per channel, as many as the size of the channel axis when the
  tensor has two dimensions or more, and a single entry when it has one dimension. For
  every channel the scale is positive and the zero point is 0. The scale is at most the
  replaced abs-max of the channel: the largest absolute value of the channel's entries,
  or \<^verbatim>\<open>np.float32(1e-8)\<close> when that value is within \<^verbatim>\<open>1e-8\<close> of zero, which is how
  the library's \<^verbatim>\<open>==\<close> compares it with 0. The bound by the raw abs-max therefore
  holds only for channels whose abs-max is at least \<^verbatim>\<open>1e-8\<close>.
\<close>

theorem calibrated_scales_bounds:
  assumes "nonempty_tensor t" "valid_axis obs t"
    and "obs_max obs = None" "obs_scale obs = None" "obs_zero_point obs = None"
  shows "\<exists>obs1 obs2 s z.
           forward lossf obs t = Some (Inr t, obs1)
         \<and> scales obs1 = (Inr (Some s), obs2)
         \<and> zero_points obs1 = (Inr (Some z), obs2)
         \<and> zero_points obs2 = (Inr (Some z), obs2)
         \<and> max_value obs2 = Inr (Some s)
         \<and> length (data s) = length (channels obs t)
         \<and> length (data z) = length (channels obs t)
         \<and> length (channels obs t) =
             (if 2 \<le> length (shape t) then shape t ! nat (quant_axis obs) else 1)
         \<and> (\<forall>c < length (channels obs t).
               0 < data s ! c
             \<and> data s ! c \<le> channel_max obs t ! c
             \<and> channel_max obs t ! c =
                 (if float_equal (Max ((\<lambda>x. \<bar>x\<bar>) ` set (channels obs t ! c))) 0 then eps
                  else Max ((\<lambda>x. \<bar>x\<bar>) ` set (channels obs t ! c)))
             \<and> data z ! c = 0)"
proof -
  let ?n = "length (channels obs t)"
  have ne: "0 < numel t" using assms(1) by (simp add: nonempty_tensor_def)
  have len: "?n = (if 2 \<le> length (shape t) then shape t ! nat (quant_axis obs) else 1)"
    using assms(2) by (rule length_channels_valid)
  obtain r where r: "cal_abs_max lossf obs t = Some (Inr r)"
    and rl: "length (data r) = ?n"
    and rc: "\<forall>c<?n. data r ! c =
               snd (chan_search lossf (qmin obs) (qmax obs) (channels obs t ! c)
                      (channel_max obs t ! c) grid (PInf, channel_max obs t ! c))"
    using cal_abs_max_channels[OF ne, of lossf obs] by auto
  let ?obs1 = "obs\<lparr>obs_max := Some r\<rparr>"
  let ?z = "zeros_like_tensor r"
  let ?obs2 = "?obs1\<lparr>obs_scale := Some r, obs_zero_point := Some ?z\<rparr>"
  have f: "forward lossf obs t = Some (Inr t, ?obs1)"
    using assms(3) r by (simp add: forward_def)
  have ct: "cal_thresholds ?obs1 = (Inr (), ?obs2)"
    by (rule cal_thresholds_calibrated) simp
  have s: "scales ?obs1 = (Inr (Some r), ?obs2)"
    using assms(4) ct by (simp add: scales_def)
  have z1: "zero_points ?obs1 = (Inr (Some ?z), ?obs2)"
    using assms(5) ct by (simp add: zero_points_def)
  have z2: "zero_points ?obs2 = (Inr (Some ?z), ?obs2)"
    by (simp add: zero_points_def)
  have mv: "max_value ?obs2 = Inr (Some r)" by (simp add: max_value_def)
  have zl: "length (data ?z) = ?n" using rl by (simp add: zeros_like_tensor_def)
  have gr: "list_all (\<lambda>f. 0 < f \<and> f \<le> 98 / 100 + 1 / 1000) grid"
    using grid_bounds grid_range by (simp add: list_all_iff)
  have per: "0 < data r ! c \<and> data r ! c \<le> channel_max obs t ! c
             \<and> channel_max obs t ! c =
                 (if float_equal (Max ((\<lambda>x. \<bar>x\<bar>) ` set (channels obs t ! c))) 0 then eps
                  else Max ((\<lambda>x. \<bar>x\<bar>) ` set (channels obs t ! c)))
             \<and> data ?z ! c = 0" if c: "c < ?n" for c
  proof -
    have pos: "0 < channel_max obs t ! c" using c by (rule channel_max_pos)
    have b: "0 < snd (chan_search lossf (qmin obs) (qmax obs) (channels obs t ! c)
                      (channel_max obs t ! c) grid (PInf, channel_max obs t ! c))
           \<and> snd (chan_search lossf (qmin obs) (qmax obs) (channels obs t ! c)
                      (channel_max obs t ! c) grid (PInf, channel_max obs t ! c))
              \<le> channel_max obs t ! c"
      using pos gr by (intro chan_search_bounds) simp_all
    have g: "channels obs t ! c \<noteq> []" using ne c by (rule channels_nonempty)
    have mx: "abs_max_of (channels obs t ! c) = Max ((\<lambda>x. \<bar>x\<bar>) ` set (channels obs t ! c))"
      using g by (rule abs_max_of_Max)
    have "data ?z ! c = 0" using c rl by (simp add: zeros_like_tensor_def)
    then show ?thesis using b rc c channel_max_valid_nth[OF assms(2) c] mx by simp
  qed
  from f s z1 z2 mv rl zl len per show ?thesis by blast
qed

theorem calibrated_scales_bounds_witness:
  "nonempty_tensor \<lparr>shape = [2, 2], data = [0, 0, 3, - 4]\<rparr>
   \<and> valid_axis (init 0 8) \<lparr>shape = [2, 2], data = [0, 0, 3, - 4]\<rparr>
   \<and> obs_max (init 0 8) = None \<and> obs_scale (init 0 8) = None
   \<and> obs_zero_point (init 0 8) = None
   \<and> (\<exists>obs1 obs2 s z.
         forward mse_loss (init 0 8) \<lparr>shape = [2, 2], data = [0, 0, 3, - 4]\<rparr> =
           Some (Inr \<lparr>shape = [2, 2], data = [0, 0, 3, - 4]\<rparr>, obs1)
       \<and> scales obs1 = (Inr (Some s), obs2)
       \<and> zero_points obs2 = (Inr (Some z), obs2)
       \<and> length (data s) = 2 \<and> length (data z) = 2
       \<and> 0 < data s ! 0 \<and> data s ! 0 \<le> eps \<and> data z ! 0 = 0
       \<and> 0 < data s ! 1 \<and> data s ! 1 \<le> 4 \<and> data z ! 1 = 0)"
proof -
  let ?t = "\<lparr>shape = [2, 2], data = [0, 0, 3, - 4]\<rparr>"
  let ?o = "init 0 8 :: observer"
  have h1: "nonempty_tensor ?t" by (simp add: nonempty_tensor_def wf_tensor_def numel_def)
  have h2: "valid_axis ?o ?t" by (simp add: valid_axis_def fresh_fields)
  have h3: "obs_max ?o = None" and h4: "obs_scale ?o = None" and h5: "obs_zero_point ?o = None"
    by (simp_all add: fresh_fields)
  have cm: "channel_max ?o ?t = [eps, 4]"
    by code_simp
  have n: "length (channels ?o ?t) = 2" by code_simp
  obtain obs1 obs2 s z where w:
    "forward mse_loss ?o ?t = Some (Inr ?t, obs1)" "scales obs1 = (Inr (Some s), obs2)"
    "zero_points obs2 = (Inr (Some z), obs2)"
    "length (data s) = length (channels ?o ?t)"
    "length (data z) = length (channels ?o ?t)"
    "\<forall>c < length (channels ?o ?t).
       0 < data s ! c \<and> data s ! c \<le> channel_max ?o ?t ! c \<and> data z ! c = 0"
    using calibrated_scales_bounds[OF h1 h2 h3 h4 h5, of mse_loss] by blast
  have c0: "0 < data s ! 0 \<and> data s ! 0 \<le> eps \<and> data z ! 0 = 0"
    using w(6) unfolding n cm by (metis nth_Cons_0 pos2)
  have c1: "0 < data s ! 1 \<and> data s ! 1 \<le> 4 \<and> data z ! 1 = 0"
    using w(6) unfolding n cm
    by (metis One_nat_def nth_Cons_0 nth_Cons_Suc one_less_numeral_iff semiring_norm(76))
  from w(1-5) c0 c1 h1 h2 h3 h4 h5 show ?thesis unfolding n by blast
qed

text \<open>
  C8, as stated, fails on the tensor \<open>[[2 ^ - 40]]\<close> with channel axis 0 and 8 bits. The
  channel is not all zero, but its abs-max, \<open>2 ^ - 40\<close>, is within \<^verbatim>\<open>1e-8\<close> of zero,
  and the comparison of line 68 replaces it by \<^verbatim>\<open>np.float32(1e-8)\<close>. Every candidate
  quantizes the entry to 0, all the errors are equal, and the search returns the first
  candidate, about \<open>3e-9\<close>: \<^verbatim>\<open>scales()\<close> is then larger than the raw abs-max of the
  channel.
\<close>

theorem tiny_channel_scale_above_abs_max:
  "forward mse_loss (init 0 8) \<lparr>shape = [1, 1], data = [1 / 2 ^ 40]\<rparr> =
     Some (Inr \<lparr>shape = [1, 1], data = [1 / 2 ^ 40]\<rparr>,
           (init 0 8)\<lparr>obs_max := Some \<lparr>shape = [1], data = [13510799 / 2 ^ 52]\<rparr>\<rparr>)
   \<and> fst (scales ((init 0 8)\<lparr>obs_max := Some \<lparr>shape = [1], data = [13510799 / 2 ^ 52]\<rparr>\<rparr>)) =
       Inr (Some \<lparr>shape = [1], data = [13510799 / 2 ^ 52]\<rparr>)
   \<and> channels (init 0 8) \<lparr>shape = [1, 1], data = [1 / 2 ^ 40]\<rparr> = [[1 / 2 ^ 40]]
   \<and> abs_max_of [1 / 2 ^ 40] = 1 / 2 ^ 40
   \<and> float_equal (1 / 2 ^ 40) 0
   \<and> (1 / 2 ^ 40 :: rat) < 13510799 / 2 ^ 52"
proof -
  let ?t = "\<lparr>shape = [1, 1], data = [1 / 2 ^ 40]\<rparr>"
  let ?o = "init 0 8 :: observer"
  let ?r = "\<lparr>shape = [1], data = [13510799 / 2 ^ 52 :: rat]\<rparr>"
  have ch: "channels ?o ?t = [[1 / 2 ^ 40]]" by code_simp
  have cm: "channel_max ?o ?t = [eps]" by code_simp
  have fe: "float_equal (1 / 2 ^ 40) 0" by code_simp
  have ne: "0 < numel ?t" by (simp add: numel_def)
  have grid: "grid = float64 (3 / 10) # tl grid"
    using grid_nonempty grid_hd by (metis list.collapse)
  have small: "mse_loss (- 127) 127 (scale_by f eps) [1 / 2 ^ 40] = Fin ((1 / 2 ^ 40)\<^sup>2)"
    if f: "f \<in> set grid" for f
  proof -
    have "29 / 100 \<le> f" using f grid_range by (auto simp: list_all_iff)
    then have l: "28 / 100 * eps \<le> scale_by f eps" using eps_pos by (rule scale_by_lower)
    have "2 * of_int 127 * (1 / 2 ^ 40) < 28 / 100 * eps" unfolding eps_value by simp
    then have a: "2 * of_int 127 * (1 / 2 ^ 40) < scale_by f eps" using l by linarith
    then have b: "0 < scale_by f eps" by simp
    show ?thesis by (rule mse_loss_small[OF _ _ _ b a]) simp_all
  qed
  have "\<forall>f\<in>set (float64 (3 / 10) # tl grid).
          mse_loss (- 127) 127 (scale_by f eps) [1 / 2 ^ 40] = Fin ((1 / 2 ^ 40)\<^sup>2)"
    using small grid by metis
  then have "chan_search mse_loss (- 127) 127 [1 / 2 ^ 40] eps (float64 (3 / 10) # tl grid)
               (PInf, eps) = (Fin ((1 / 2 ^ 40)\<^sup>2), scale_by (float64 (3 / 10)) eps)"
    by (rule chan_search_const)
  then have cs: "snd (chan_search mse_loss (- 127) 127 [1 / 2 ^ 40] eps grid (PInf, eps)) =
                 13510799 / 2 ^ 52"
    using grid float32_literals(4) by (metis snd_conv)
  have q: "qmin ?o = - 127" "qmax ?o = 127" by (rule init_8)+
  have cs': "snd (chan_search mse_loss (qmin ?o) (qmax ?o) [1 / 2 ^ 40] eps grid (PInf, eps)) =
                 13510799 / 2 ^ 52"
    unfolding q by (rule cs)
  have a: "cal_abs_max mse_loss ?o ?t = Some (Inr ?r)"
    using ne ch cm cs' by (rule cal_abs_max_single)
  have f: "forward mse_loss ?o ?t = Some (Inr ?t, ?o\<lparr>obs_max := Some ?r\<rparr>)"
    using a by (simp add: forward_def fresh_fields)
  have s: "fst (scales (?o\<lparr>obs_max := Some ?r\<rparr>)) = Inr (Some ?r)"
    by (simp add: scales_def cal_thresholds_def zeros_like_def fresh_fields Let_def)
  have m: "abs_max_of [1 / 2 ^ 40] = 1 / 2 ^ 40" by (simp add: abs_max_of_Max)
  have l: "(1 / 2 ^ 40 :: rat) < 13510799 / 2 ^ 52" by simp
  from f s ch m fe l show ?thesis by blast
qed

text \<open>
  C9, as amended. On a non-empty tensor, for every group of entries whose first
  candidate has a finite error, the entry the search returns is a candidate: the
  binary32 product of a factor the loop evaluated and the entry of
  \<^verbatim>\<open>abs_max_values\<close> of the group. The first round of the loop already replaces the
  initial entry by the first candidate, because the initial loss is infinite. The error
  of the first candidate need not be finite for a finite tensor: it is NaN when
  \<open>qmax\<close> is 0, and \<open>+inf\<close> when a squared difference exceeds the range of binary32.
\<close>

theorem result_is_grid_candidate:
  assumes "nonempty_tensor t" "c < length (channels obs t)"
    and "lossf (qmin obs) (qmax obs) (scale_by (float64 (3 / 10)) (channel_max obs t ! c))
           (channels obs t ! c) = Fin e"
  shows "\<exists>r. cal_abs_max lossf obs t = Some (Inr r)
           \<and> length (data r) = length (channels obs t)
           \<and> (\<exists>f\<in>set grid. data r ! c = scale_by f (channel_max obs t ! c))
           \<and> result (loop_body lossf obs (channels obs t) (abs_max_values obs t)
                       (start_state (abs_max_values obs t))) ! c
               = scale_by (float64 (3 / 10)) (channel_max obs t ! c)"
proof -
  let ?ch = "channels obs t"
  let ?cm = "channel_max obs t"
  have ne: "0 < numel t" using assms(1) by (simp add: nonempty_tensor_def)
  obtain r where r: "cal_abs_max lossf obs t = Some (Inr r)"
    and rl: "length (data r) = length ?ch"
    and rc: "\<forall>c<length ?ch. data r ! c =
               snd (chan_search lossf (qmin obs) (qmax obs) (?ch ! c) (?cm ! c) grid (PInf, ?cm ! c))"
    using cal_abs_max_channels[OF ne, of lossf obs] by blast
  have hd: "lossf (qmin obs) (qmax obs) (scale_by (hd grid) (?cm ! c)) (?ch ! c) = Fin e"
    using assms(3) by (simp only: grid_hd)
  have "\<exists>f\<in>set grid. snd (chan_search lossf (qmin obs) (qmax obs) (?ch ! c) (?cm ! c) grid
                              (PInf, ?cm ! c)) = scale_by f (?cm ! c)"
    using grid_nonempty hd by (rule chan_search_candidate)
  then have cand: "\<exists>f\<in>set grid. data r ! c = scale_by f (?cm ! c)"
    using rc assms(2) by simp
  have first: "result (loop_body lossf obs ?ch (abs_max_values obs t)
                         (start_state (abs_max_values obs t))) ! c
               = scale_by (float64 (3 / 10)) (?cm ! c)"
    using assms(2,3) by (rule first_round_nth)
  from r rl cand first show ?thesis by blast
qed

theorem result_is_grid_candidate_witness:
  "nonempty_tensor \<lparr>shape = [2, 2], data = [1, 1, 1, 1]\<rparr>
   \<and> 1 < length (channels (init 0 8) \<lparr>shape = [2, 2], data = [1, 1, 1, 1]\<rparr>)
   \<and> mse_loss (qmin (init 0 8)) (qmax (init 0 8))
       (scale_by (float64 (3 / 10)) (channel_max (init 0 8) \<lparr>shape = [2, 2], data = [1, 1, 1, 1]\<rparr> ! 1))
       (channels (init 0 8) \<lparr>shape = [2, 2], data = [1, 1, 1, 1]\<rparr> ! 1) =
     Fin ((1 - 10066330 / 2 ^ 25)\<^sup>2)
   \<and> (\<exists>r. cal_abs_max mse_loss (init 0 8) \<lparr>shape = [2, 2], data = [1, 1, 1, 1]\<rparr> = Some (Inr r)
          \<and> length (data r) = 2
          \<and> (\<exists>f\<in>set grid. data r ! 1 = scale_by f 1))"
proof -
  let ?t = "\<lparr>shape = [2, 2], data = [1, 1, 1, 1]\<rparr>"
  let ?o = "init 0 8 :: observer"
  have h1: "nonempty_tensor ?t" by (simp add: nonempty_tensor_def wf_tensor_def numel_def)
  have ch: "channels ?o ?t ! 1 = [1, 1]" by code_simp
  have cm: "channel_max ?o ?t ! 1 = 1" by code_simp
  have n: "length (channels ?o ?t) = 2" by code_simp
  have h2: "1 < length (channels ?o ?t)" unfolding n by simp
  have sb: "scale_by (float64 (3 / 10)) 1 = 10066330 / 2 ^ 25" by code_simp
  have h3: "mse_loss (qmin ?o) (qmax ?o) (scale_by (float64 (3 / 10)) (channel_max ?o ?t ! 1))
              (channels ?o ?t ! 1) = Fin ((1 - 10066330 / 2 ^ 25)\<^sup>2)"
    unfolding ch cm sb by (rule mse_loss_ones) (simp_all add: init_8)
  obtain r where w: "cal_abs_max mse_loss ?o ?t = Some (Inr r)"
    "length (data r) = length (channels ?o ?t)"
    "\<exists>f\<in>set grid. data r ! 1 = scale_by f (channel_max ?o ?t ! 1)"
    using result_is_grid_candidate[where lossf = mse_loss, OF h1 h2 h3] by blast
  from w h1 h2 h3 show ?thesis unfolding n cm by blast
qed

text \<open>
  C9, as stated, fails on the tensor \<open>[[1, 2], [3, 4]]\<close> with channel axis 0 and one bit.
  The quantization range is then \<open>[0, 0]\<close>, line 80 divides zero by zero, and the error
  of every candidate is NaN, which is not less than \<open>+inf\<close>: the first round leaves the
  initial entries, and the search returns the raw abs-max of each channel, 2 and 4,
  which are not among the candidates of their channels.
\<close>

theorem one_bit_returns_abs_max:
  "cal_abs_max mse_loss (init 0 1) \<lparr>shape = [2, 2], data = [1, 2, 3, 4]\<rparr> =
     Some (Inr \<lparr>shape = [2], data = [2, 4]\<rparr>)
   \<and> channels (init 0 1) \<lparr>shape = [2, 2], data = [1, 2, 3, 4]\<rparr> = [[1, 2], [3, 4]]
   \<and> channel_max (init 0 1) \<lparr>shape = [2, 2], data = [1, 2, 3, 4]\<rparr> = [2, 4]
   \<and> qmax (init 0 1) = 0
   \<and> mse_loss (qmin (init 0 1)) (qmax (init 0 1)) (scale_by (float64 (3 / 10)) 2) [1, 2] = NaN
   \<and> 2 \<notin> set (candidates 2)
   \<and> 4 \<notin> set (candidates 4)"
proof -
  let ?t = "\<lparr>shape = [2, 2], data = [1, 2, 3, 4]\<rparr>"
  let ?o = "init 0 1 :: observer"
  have ch: "channels ?o ?t = [[1, 2], [3, 4]]" by code_simp
  have cm: "channel_max ?o ?t = [2, 4]" by code_simp
  have ne: "0 < numel ?t" by (simp add: numel_def)
  have q: "qmax ?o = 0" by (rule init_1)
  have cs: "snd (chan_search mse_loss (qmin ?o) (qmax ?o) g m grid (PInf, m)) = m" for g m
    unfolding q by (rule chan_search_NaN) (simp add: mse_loss_NaN)
  have a: "cal_abs_max mse_loss ?o ?t = Some (Inr \<lparr>shape = [2], data = [2, 4]\<rparr>)"
    using ne ch cm cs cs by (rule cal_abs_max_pair)
  have nan: "mse_loss (qmin ?o) (qmax ?o) (scale_by (float64 (3 / 10)) 2) [1, 2] = NaN"
    unfolding q by (rule mse_loss_NaN)
  have c2: "(2 :: rat) \<notin> set (candidates 2)" by (rule candidates_less) simp
  have c4: "(4 :: rat) \<notin> set (candidates 4)" by (rule candidates_less) simp
  from a ch cm q nan c2 c4 show ?thesis by blast
qed

text \<open>
  C10. \<^verbatim>\<open>forward\<close> writes the cached per-channel max and nothing else. Any sequence of
  \<^verbatim>\<open>forward\<close> calls ends, and leaves the scale, the zero point, the bit width, the
  quantization range and the channel axis of the observer as they were; on a fresh
  observer the scale and the zero point are therefore still unset afterwards.
\<close>

theorem forward_changes_only_max:
  "(\<exists>obs1. forward_all lossf obs ts = Some obs1
         \<and> obs_scale obs1 = obs_scale obs
         \<and> obs_zero_point obs1 = obs_zero_point obs
         \<and> quant_bits obs1 = quant_bits obs
         \<and> qmin obs1 = qmin obs
         \<and> qmax obs1 = qmax obs
         \<and> channel_axis obs1 = channel_axis obs
         \<and> calibration_loss obs1 = calibration_loss obs)
   \<and> (\<exists>obs1. forward_all lossf (init axis bits) ts = Some obs1
         \<and> obs_scale obs1 = None
         \<and> obs_zero_point obs1 = None
         \<and> quant_bits obs1 = bits
         \<and> qmin obs1 = fst (qmin_qmax bits)
         \<and> qmax obs1 = snd (qmin_qmax bits))"
proof -
  have keep: "\<exists>obs1. forward_all lossf obs ts = Some obs1
         \<and> obs_scale obs1 = obs_scale obs
         \<and> obs_zero_point obs1 = obs_zero_point obs
         \<and> quant_bits obs1 = quant_bits obs
         \<and> qmin obs1 = qmin obs
         \<and> qmax obs1 = qmax obs
         \<and> channel_axis obs1 = channel_axis obs
         \<and> calibration_loss obs1 = calibration_loss obs" for obs
  proof -
    obtain obs1 where o: "forward_all lossf obs ts = Some obs1" "obs1\<lparr>obs_max := obs_max obs\<rparr> = obs"
      using forward_all_keeps by blast
    have "obs_scale (obs1\<lparr>obs_max := obs_max obs\<rparr>) = obs_scale obs1"
      "obs_zero_point (obs1\<lparr>obs_max := obs_max obs\<rparr>) = obs_zero_point obs1"
      "quant_bits (obs1\<lparr>obs_max := obs_max obs\<rparr>) = quant_bits obs1"
      "qmin (obs1\<lparr>obs_max := obs_max obs\<rparr>) = qmin obs1"
      "qmax (obs1\<lparr>obs_max := obs_max obs\<rparr>) = qmax obs1"
      "channel_axis (obs1\<lparr>obs_max := obs_max obs\<rparr>) = channel_axis obs1"
      "calibration_loss (obs1\<lparr>obs_max := obs_max obs\<rparr>) = calibration_loss obs1"
      by simp_all
    then show ?thesis using o by (metis (no_types))
  qed
  obtain obs1 where f: "forward_all lossf (init axis bits) ts = Some obs1"
    "obs_scale obs1 = obs_scale (init axis bits)"
    "obs_zero_point obs1 = obs_zero_point (init axis bits)"
    "quant_bits obs1 = quant_bits (init axis bits)"
    "qmin obs1 = qmin (init axis bits)" "qmax obs1 = qmax (init axis bits)"
    using keep[of "init axis bits"] by blast
  have "forward_all lossf (init axis bits) ts = Some obs1
         \<and> obs_scale obs1 = None
         \<and> obs_zero_point obs1 = None
         \<and> quant_bits obs1 = bits
         \<and> qmin obs1 = fst (qmin_qmax bits)
         \<and> qmax obs1 = snd (qmin_qmax bits)"
    using f by (simp add: init_def)
  then have "\<exists>obs1. forward_all lossf (init axis bits) ts = Some obs1
         \<and> obs_scale obs1 = None
         \<and> obs_zero_point obs1 = None
         \<and> quant_bits obs1 = bits
         \<and> qmin obs1 = fst (qmin_qmax bits)
         \<and> qmax obs1 = snd (qmin_qmax bits)" by (rule exI)
  with keep[of obs] show ?thesis by (rule conjI)
qed

end
